theory Spec2Isabelle
  imports Complex_Main
begin

section \<open>Values, columns and frames\<close>

text \<open>
  The module \<^verbatim>\<open>beyond_correlation/discover.py\<close> scores every ordered pair of columns of a
  pandas DataFrame. This theory embeds its two functions, \<^verbatim>\<open>labelencode_if_object\<close> and
  \<^verbatim>\<open>discover\<close>.

  Exceptions are values. The exceptions the module itself or the container operations it
  calls can raise are constructors of their own; an exception raised inside one of the
  scikit-learn, NumPy or pandas numerical routines is \<open>LibraryError\<close> with its text.
\<close>

datatype py_error =
    AssertionError string
  | ZeroDivisionError
  | KeyError string
  | AttributeError
  | ValueError
  | LibraryError string

text \<open>
  A Python float is read as a real number or not-a-number; rounding is not modelled.
  The only float arithmetic of the module itself is the literal \<^verbatim>\<open>0.0\<close> and one true
  division of two integers.
\<close>

datatype pyfloat = Float real | NaN

text \<open>
  A cell of a column is missing (\<open>NA\<close>: \<^verbatim>\<open>None\<close> or \<^verbatim>\<open>nan\<close>) or holds a value. The type of
  the values is left open: the module never inspects one. The only property of a column type
  the module asks for is whether it is \<^verbatim>\<open>'O'\<close> (object).
\<close>

datatype 'a cell = NA | Val 'a

datatype dtype = Object | Numeric

record 'a series =
  dtype :: dtype
  cells :: "'a cell list"

text \<open>
  A DataFrame: the number of rows (\<^verbatim>\<open>shape[0]\<close>, the length of its index) and its labelled
  columns in order. pandas keeps every column as long as the index; labels may repeat.
\<close>

record 'a dataframe =
  n_rows :: nat
  data :: "(string \<times> 'a series) list"

definition columns :: "'a dataframe \<Rightarrow> string list" where
  "columns df = map fst (data df)"

definition wf_dataframe :: "'a dataframe \<Rightarrow> bool" where
  "wf_dataframe df = list_all (\<lambda>c. length (cells (snd c)) = n_rows df) (data df)"

fun isnull :: "'a cell \<Rightarrow> bool" where
  "isnull NA = True"
| "isnull (Val v) = False"

definition labelled :: "'a dataframe \<Rightarrow> string \<Rightarrow> (string \<times> 'a series) list" where
  "labelled df k = filter (\<lambda>c. fst c = k) (data df)"

text \<open>
  \<^verbatim>\<open>df[[k1, ..., kn]]\<close>: a new frame with, for each key in turn, every column carrying that
  label; \<^verbatim>\<open>KeyError\<close> for a label the frame does not have.
\<close>

definition getitem_list_frame :: "'a dataframe \<Rightarrow> string list \<Rightarrow> py_error + 'a dataframe" where
  "getitem_list_frame df keys =
     (case filter (\<lambda>k. k \<notin> set (columns df)) keys of
        [] \<Rightarrow> Inr \<lparr>n_rows = n_rows df, data = concat (map (labelled df) keys)\<rparr>
      | k # ks \<Rightarrow> Inl (KeyError k))"

text \<open>
  \<^verbatim>\<open>df[k]\<close> used as a Series (\<^verbatim>\<open>df_ml[col].dtype\<close>, \<^verbatim>\<open>df_ml[target]\<close>). When the label is
  carried by several columns pandas returns a DataFrame, which has no \<^verbatim>\<open>dtype\<close>: the attribute
  access raises \<^verbatim>\<open>AttributeError\<close>, unless the label is itself \<^verbatim>\<open>dtype\<close>, where attribute
  access selects those columns again and their truth value raises \<^verbatim>\<open>ValueError\<close>.
\<close>

definition getitem_frame :: "'a dataframe \<Rightarrow> string \<Rightarrow> py_error + 'a series" where
  "getitem_frame df k =
     (case labelled df k of
        [] \<Rightarrow> Inl (KeyError k)
      | [c] \<Rightarrow> Inr (snd c)
      | c # c' # cs \<Rightarrow> Inl (if k = ''dtype'' then ValueError else AttributeError))"

text \<open>
  \<^verbatim>\<open>df.dropna()\<close>: a new frame with the rows that have no missing cell in any column. The
  mask says, row by row, whether the row is kept.
\<close>

fun row_mask :: "nat \<Rightarrow> 'a cell list list \<Rightarrow> bool list" where
  "row_mask n [] = replicate n True"
| "row_mask n (c # cs) = map2 (\<lambda>x b. \<not> isnull x \<and> b) c (row_mask n cs)"

definition take_rows :: "bool list \<Rightarrow> 'b list \<Rightarrow> 'b list" where
  "take_rows keep xs = map fst (filter snd (zip xs keep))"

definition dropna_frame :: "'a dataframe \<Rightarrow> 'a dataframe" where
  "dropna_frame df =
     (let keep = row_mask (n_rows df) (map (\<lambda>c. cells (snd c)) (data df))
      in \<lparr>n_rows = length (filter id keep),
          data = map (\<lambda>c. (fst c, (snd c)\<lparr>cells := take_rows keep (cells (snd c))\<rparr>)) (data df)\<rparr>)"

text \<open>\<^verbatim>\<open>df.drop(columns=[k1, ..., kn])\<close>: a new frame without the columns carrying these labels.\<close>

definition drop_frame :: "'a dataframe \<Rightarrow> string list \<Rightarrow> py_error + 'a dataframe" where
  "drop_frame df keys =
     (case filter (\<lambda>k. k \<notin> set (columns df)) keys of
        [] \<Rightarrow> Inr \<lparr>n_rows = n_rows df, data = filter (\<lambda>c. fst c \<notin> set keys) (data df)\<rparr>
      | k # ks \<Rightarrow> Inl (KeyError k))"

text \<open>
  \<^verbatim>\<open>df[k] = array\<close>: the frame with a column of the array's values under the label \<open>k\<close>,
  replacing the columns that carry the label or added last when none does;
  \<^verbatim>\<open>ValueError\<close> when the array is not as long as the index. The array comes from
  \<^verbatim>\<open>LabelEncoder.fit_transform\<close>: integer codes, none missing.
\<close>

definition setitem_frame :: "'a dataframe \<Rightarrow> string \<Rightarrow> 'a list \<Rightarrow> py_error + 'a dataframe" where
  "setitem_frame df k vs =
     (if length vs \<noteq> n_rows df then Inl ValueError
      else let s = \<lparr>dtype = Numeric, cells = map Val vs\<rparr>
           in Inr (df\<lparr>data :=
                (if k \<in> set (columns df)
                 then map (\<lambda>c. if fst c = k then (k, s) else c) (data df)
                 else data df @ [(k, s)])\<rparr>))"

text \<open>\<^verbatim>\<open>s.isnull().sum()\<close> of a Series, and \<^verbatim>\<open>df.isnull().sum().sum()\<close> of a frame.\<close>

definition isnull_sum :: "'a series \<Rightarrow> nat" where
  "isnull_sum s = length (filter isnull (cells s))"

definition isnull_sum_sum :: "'a dataframe \<Rightarrow> nat" where
  "isnull_sum_sum df = sum_list (map (\<lambda>c. isnull_sum (snd c)) (data df))"

text \<open>
  True division of two Python integers: \<^verbatim>\<open>ZeroDivisionError\<close> for a zero divisor, the
  quotient as a float otherwise.
\<close>

definition py_truediv :: "int \<Rightarrow> int \<Rightarrow> py_error + pyfloat" where
  "py_truediv a b = (if b = 0 then Inl ZeroDivisionError else Inr (Float (real_of_int a / real_of_int b)))"

section \<open>The store of frames\<close>

text \<open>
  DataFrames are objects: a variable holds a reference, \<^verbatim>\<open>df[[...]]\<close>, \<^verbatim>\<open>dropna()\<close> and
  \<^verbatim>\<open>drop(columns=...)\<close> return a new object, and \<^verbatim>\<open>df[k] = array\<close> changes the object the
  variable refers to. The store maps references to frames; references below \<open>next_ref\<close> are
  the objects that exist.

  The store also holds the state of NumPy's process-wide random generator, which a random
  forest constructed with \<^verbatim>\<open>random_state=None\<close> draws from. The state is a number; what a
  draw does to it is the library's business.

  A program takes a state and returns its outcome, an exception or a value, with the state it
  leaves. The module's programs run on the store; the library's random routines run on the
  generator.
\<close>

datatype generator = Generator nat

record 'a store =
  frames :: "nat \<Rightarrow> 'a dataframe"
  next_ref :: nat
  generator :: generator

type_synonym ('s, 'x) prog = "'s \<Rightarrow> (py_error + 'x) \<times> 's"

definition return :: "'x \<Rightarrow> ('s, 'x) prog" where
  "return x = (\<lambda>h. (Inr x, h))"

definition raise :: "py_error \<Rightarrow> ('s, 'x) prog" where
  "raise e = (\<lambda>h. (Inl e, h))"

definition bind :: "('s, 'x) prog \<Rightarrow> ('x \<Rightarrow> ('s, 'y) prog) \<Rightarrow> ('s, 'y) prog" where
  "bind m f = (\<lambda>h. case m h of (Inl e, h') \<Rightarrow> (Inl e, h') | (Inr x, h') \<Rightarrow> f x h')"

definition lift :: "py_error + 'x \<Rightarrow> ('s, 'x) prog" where
  "lift r = (\<lambda>h. (r, h))"

definition assert :: "bool \<Rightarrow> string \<Rightarrow> ('s, unit) prog" where
  "assert b msg = (if b then return () else raise (AssertionError msg))"

definition read_frame :: "nat \<Rightarrow> ('a store, 'a dataframe) prog" where
  "read_frame r = (\<lambda>h. (Inr (frames h r), h))"

definition new_frame :: "'a dataframe \<Rightarrow> ('a store, nat) prog" where
  "new_frame fr = (\<lambda>h. (Inr (next_ref h),
      h\<lparr>frames := (frames h)(next_ref h := fr), next_ref := Suc (next_ref h)\<rparr>))"

definition write_frame :: "nat \<Rightarrow> 'a dataframe \<Rightarrow> ('a store, unit) prog" where
  "write_frame r fr = (\<lambda>h. (Inr (), h\<lparr>frames := (frames h)(r := fr)\<rparr>))"

definition get_columns :: "nat \<Rightarrow> ('a store, string list) prog" where
  "get_columns df = bind (read_frame df) (\<lambda>fr. return (columns fr))"

definition shape0 :: "nat \<Rightarrow> ('a store, nat) prog" where
  "shape0 df = bind (read_frame df) (\<lambda>fr. return (n_rows fr))"

definition shape1 :: "nat \<Rightarrow> ('a store, nat) prog" where
  "shape1 df = bind (read_frame df) (\<lambda>fr. return (length (data fr)))"

definition getitem_list :: "nat \<Rightarrow> string list \<Rightarrow> ('a store, nat) prog" where
  "getitem_list df keys = bind (read_frame df) (\<lambda>fr. bind (lift (getitem_list_frame fr keys)) new_frame)"

definition getitem :: "nat \<Rightarrow> string \<Rightarrow> ('a store, 'a series) prog" where
  "getitem df k = bind (read_frame df) (\<lambda>fr. lift (getitem_frame fr k))"

definition dropna :: "nat \<Rightarrow> ('a store, nat) prog" where
  "dropna df = bind (read_frame df) (\<lambda>fr. new_frame (dropna_frame fr))"

definition drop_columns :: "nat \<Rightarrow> string list \<Rightarrow> ('a store, nat) prog" where
  "drop_columns df keys = bind (read_frame df) (\<lambda>fr. bind (lift (drop_frame fr keys)) new_frame)"

definition setitem :: "nat \<Rightarrow> string \<Rightarrow> 'a list \<Rightarrow> ('a store, unit) prog" where
  "setitem df k vs = bind (read_frame df) (\<lambda>fr. bind (lift (setitem_frame fr k vs)) (write_frame df))"

section \<open>The library capabilities\<close>

text \<open>
  The estimators the module constructs: \<^verbatim>\<open>RandomForestClassifier(n_estimators, random_state)\<close>
  and \<^verbatim>\<open>RandomForestRegressor(n_estimators, random_state)\<close>. Cross-validation clones the
  estimator it is given, so an estimator is a value.
\<close>

datatype estimator =
    RandomForestClassifier nat "int option"
  | RandomForestRegressor nat "int option"

fun random_state_of :: "estimator \<Rightarrow> int option" where
  "random_state_of (RandomForestClassifier n seed) = seed"
| "random_state_of (RandomForestRegressor n seed) = seed"

text \<open>
  What the module calls and does not define: \<^verbatim>\<open>LabelEncoder().fit_transform(column)\<close>,
  \<^verbatim>\<open>cross_val_score(est, df_X, df_y, cv=k)\<close>, the \<^verbatim>\<open>mean()\<close> of the array of fold scores, and
  \<^verbatim>\<open>pair.corr(method=method)[feature][target]\<close>. Each is a parameter; a routine that can
  raise returns the exception's text on the left.

  The encoder, the mean and the correlation are functions of the arguments the module passes.
  \<^verbatim>\<open>cross_val_score\<close> fits random forests, which draw random numbers: it is a function of
  its arguments and of the generator the forests draw from, and returns the generator as the
  draws leave it. \<open>seeded\<close> is the generator \<^verbatim>\<open>RandomState(seed)\<close> starts as.
\<close>

record 'a lib =
  fit_transform :: "'a cell list \<Rightarrow> string + 'a list"
  cross_val_score :: "estimator \<Rightarrow> 'a dataframe \<Rightarrow> 'a series \<Rightarrow> nat \<Rightarrow>
    generator \<Rightarrow> (string + pyfloat list) \<times> generator"
  seeded :: "int \<Rightarrow> generator"
  mean :: "pyfloat list \<Rightarrow> pyfloat"
  corr :: "'a dataframe \<Rightarrow> string \<Rightarrow> string \<Rightarrow> string \<Rightarrow> string + pyfloat"

definition call :: "string + 'x \<Rightarrow> ('s, 'x) prog" where
  "call r = (case r of Inl msg \<Rightarrow> raise (LibraryError msg) | Inr x \<Rightarrow> return x)"

text \<open>
  \<^verbatim>\<open>cross_val_score(est, df_X, df_y, cv=k)\<close> as a program on the generator. Each fit of a clone
  of \<^verbatim>\<open>est\<close> takes its random numbers from \<^verbatim>\<open>check_random_state(est.random_state)\<close>: the
  process-wide generator when \<^verbatim>\<open>random_state\<close> is \<^verbatim>\<open>None\<close>, which the draws advance, and a
  generator of its own started from the seed when it is an integer, which leaves the
  process-wide one as it was.
\<close>

definition run_cross_val_score :: "'a lib \<Rightarrow> estimator \<Rightarrow> 'a dataframe \<Rightarrow> 'a series \<Rightarrow> nat \<Rightarrow>
    (generator, pyfloat list) prog" where
  "run_cross_val_score L est X y k =
     (\<lambda>g. case random_state_of est of
            None \<Rightarrow> (case cross_val_score L est X y k g of
                       (Inl msg, g') \<Rightarrow> (Inl (LibraryError msg), g')
                     | (Inr scores, g') \<Rightarrow> (Inr scores, g'))
          | Some seed \<Rightarrow> (case fst (cross_val_score L est X y k (seeded L seed)) of
                       Inl msg \<Rightarrow> (Inl (LibraryError msg), g)
                     | Inr scores \<Rightarrow> (Inr scores, g)))"

text \<open>A program on the generator, run on the generator of the store.\<close>

definition on_generator :: "(generator, 'x) prog \<Rightarrow> ('a store, 'x) prog" where
  "on_generator m = (\<lambda>h. case m (generator h) of (r, g') \<Rightarrow> (r, h\<lparr>generator := g'\<rparr>))"

section \<open>labelencode\_if\_object\<close>

text \<open>
  \<^verbatim>\<open>
  def labelencode_if_object(df_ml):
      for col in df_ml.columns:
          if df_ml[col].dtype == 'O':
              le = LabelEncoder()
              replacement_series = le.fit_transform(df_ml[col])
              df_ml = df_ml.drop(columns=[col])
              df_ml[col] = replacement_series
      return df_ml
  \<close>
  The loop runs over the labels the argument had on entry.
\<close>

fun labelencode_loop :: "'a lib \<Rightarrow> string list \<Rightarrow> nat \<Rightarrow> ('a store, nat) prog" where
  "labelencode_loop L [] df_ml = return df_ml"
| "labelencode_loop L (col # cols) df_ml =
     bind (getitem df_ml col) (\<lambda>s.
       if dtype s = Object then
         bind (call (fit_transform L (cells s))) (\<lambda>replacement_series.
         bind (drop_columns df_ml [col]) (\<lambda>df_ml'.
         bind (setitem df_ml' col replacement_series) (\<lambda>u.
         labelencode_loop L cols df_ml')))
       else labelencode_loop L cols df_ml)"

definition labelencode_if_object :: "'a lib \<Rightarrow> nat \<Rightarrow> ('a store, nat) prog" where
  "labelencode_if_object L df_ml = bind (get_columns df_ml) (\<lambda>cols. labelencode_loop L cols df_ml)"

section \<open>discover\<close>

record pair_key =
  feature :: string
  target :: string

record score_record = pair_key +
  score :: pyfloat

record nan_info = pair_key +
  n_dropped_na :: int
  pct_dropped_na :: pyfloat

text \<open>What \<^verbatim>\<open>discover\<close> returns: \<^verbatim>\<open>df_results\<close>, or the tuple \<^verbatim>\<open>(df_results, df_nan_info)\<close>.\<close>

datatype discover_result =
    Results "score_record list"
  | ResultsAndNaNInfo "score_record list" "nan_info list"

definition corr_methods :: "string list" where
  "corr_methods = [''pearson'', ''spearman'', ''kendall'']"

definition known_methods :: "string list" where
  "known_methods = corr_methods @ [''rf'']"

text \<open>The \<^verbatim>\<open>repr\<close> of a list of plain strings, as the f-string of the assertion prints it.\<close>

fun join :: "string \<Rightarrow> string list \<Rightarrow> string" where
  "join sep [] = []"
| "join sep [x] = x"
| "join sep (x # y # ys) = x @ sep @ join sep (y # ys)"

definition repr_list :: "string list \<Rightarrow> string" where
  "repr_list xs = ''['' @ join '', '' (map (\<lambda>x. [CHR 0x27] @ x @ [CHR 0x27]) xs) @ '']''"

definition method_message :: string where
  "method_message = ''Expecting method to be one of: '' @ repr_list known_methods"

text \<open>
  Lines 29 to 38: one estimator per column label, a classifier for a label in
  \<^verbatim>\<open>classifier_overrides\<close> and a regressor otherwise, stored in a dictionary under the label.
\<close>

fun estimator_loop :: "string list \<Rightarrow> string list \<Rightarrow> int option \<Rightarrow>
    (string \<rightharpoonup> estimator) \<Rightarrow> (string \<rightharpoonup> estimator)" where
  "estimator_loop [] classifier_overrides random_state estimator_mapping = estimator_mapping"
| "estimator_loop (col # cols) classifier_overrides random_state estimator_mapping =
     (let est = (if col \<in> set classifier_overrides
                 then RandomForestClassifier 50 random_state
                 else RandomForestRegressor 50 random_state)
      in estimator_loop cols classifier_overrides random_state (estimator_mapping(col \<mapsto> est)))"

definition dict_lookup :: "(string \<rightharpoonup> 'v) \<Rightarrow> string \<Rightarrow> ('s, 'v) prog" where
  "dict_lookup d k = (case d k of None \<Rightarrow> raise (KeyError k) | Some v \<Rightarrow> return v)"

text \<open>
  The body of the inner loop for one feature and one target, in its three steps. An exception
  in any of them leaves \<^verbatim>\<open>discover\<close> altogether, so the lists appended to so far are
  never seen; the body therefore yields the two dictionaries it appends.

  Lines 48 to 55: the two-column frame, its rows without missing cells, and the dictionary
  of dropped rows.
\<close>

definition prepare_pair :: "nat \<Rightarrow> string \<Rightarrow> string \<Rightarrow> ('a store, nat \<times> nan_info) prog" where
  "prepare_pair df feat targ =
     bind (getitem_list df [feat, targ]) (\<lambda>df_ml.
     bind (shape0 df_ml) (\<lambda>rows_before_drop_na.
     bind (dropna df_ml) (\<lambda>df_ml.
     bind (shape0 df_ml) (\<lambda>rows_after_drop_na.
     let n_dropped_na = int rows_before_drop_na - int rows_after_drop_na in
     bind (lift (py_truediv n_dropped_na (int rows_before_drop_na))) (\<lambda>pct.
     return (df_ml, \<lparr>feature = feat, target = targ,
                      n_dropped_na = n_dropped_na, pct_dropped_na = pct\<rparr>))))))"

text \<open>Lines 59 to 81: the two assertions and the score of the encoded pair.\<close>

definition score_pair :: "'a lib \<Rightarrow> nat \<Rightarrow> string \<Rightarrow> estimator \<Rightarrow> string \<Rightarrow> string \<Rightarrow> ('a store, pyfloat) prog" where
  "score_pair L df_ml method est feat targ =
     bind (getitem_list df_ml [feat]) (\<lambda>df_X.
     bind (getitem df_ml targ) (\<lambda>df_y.
     bind (read_frame df_X) (\<lambda>X.
     bind (assert (isnull_sum_sum X = 0) []) (\<lambda>u.
     bind (assert (isnull_sum df_y = 0) []) (\<lambda>u.
     bind (if method = ''rf''
           then bind (on_generator (run_cross_val_score L est X df_y 3)) (\<lambda>scores.
                return (mean L scores))
           else return (Float 0)) (\<lambda>score.
     if method \<in> set corr_methods
     then bind (getitem_list df_ml [feat, targ]) (\<lambda>pair.
          bind (shape1 pair) (\<lambda>n.
          bind (assert (n = 2) []) (\<lambda>u.
          bind (read_frame pair) (\<lambda>P.
          call (corr L P method feat targ)))))
     else return score))))))"

text \<open>Lines 48 to 84.\<close>

definition process_pair :: "'a lib \<Rightarrow> nat \<Rightarrow> string \<Rightarrow> estimator \<Rightarrow> string \<Rightarrow> string \<Rightarrow>
    ('a store, nan_info \<times> score_record) prog" where
  "process_pair L df method est feat targ =
     bind (prepare_pair df feat targ) (\<lambda>prepared.
     bind (labelencode_if_object L (fst prepared)) (\<lambda>df_ml.
     bind (score_pair L df_ml method est feat targ) (\<lambda>score.
     return (snd prepared, \<lparr>feature = feat, target = targ, score = score\<rparr>))))"

text \<open>
  The two loops over \<^verbatim>\<open>enumerate(cols)\<close>; \<open>acc\<close> is the pair of lists \<^verbatim>\<open>ds\<close> and
  \<^verbatim>\<open>nan_information\<close>.
\<close>

fun inner_loop :: "'a lib \<Rightarrow> nat \<Rightarrow> string \<Rightarrow> estimator \<Rightarrow> nat \<Rightarrow> string \<Rightarrow> (nat \<times> string) list \<Rightarrow>
    score_record list \<times> nan_info list \<Rightarrow> ('a store, score_record list \<times> nan_info list) prog" where
  "inner_loop L df method est idx_Y targ [] acc = return acc"
| "inner_loop L df method est idx_Y targ ((idx_X, feat) # rest) acc =
     (if idx_X = idx_Y then inner_loop L df method est idx_Y targ rest acc
      else bind (process_pair L df method est feat targ) (\<lambda>r.
           inner_loop L df method est idx_Y targ rest (fst acc @ [snd r], snd acc @ [fst r])))"

fun outer_loop :: "'a lib \<Rightarrow> nat \<Rightarrow> string \<Rightarrow> (string \<rightharpoonup> estimator) \<Rightarrow> string list \<Rightarrow>
    (nat \<times> string) list \<Rightarrow> score_record list \<times> nan_info list \<Rightarrow>
    ('a store, score_record list \<times> nan_info list) prog" where
  "outer_loop L df method estimator_mapping cols [] acc = return acc"
| "outer_loop L df method estimator_mapping cols ((idx_Y, targ) # rest) acc =
     bind (dict_lookup estimator_mapping targ) (\<lambda>est.
     bind (inner_loop L df method est idx_Y targ (enumerate 0 cols) acc) (\<lambda>acc'.
     outer_loop L df method estimator_mapping cols rest acc'))"

definition discover :: "'a lib \<Rightarrow> nat \<Rightarrow> string list option \<Rightarrow> string \<Rightarrow> int option \<Rightarrow> bool \<Rightarrow>
    ('a store, discover_result) prog" where
  "discover L df classifier_overrides method random_state include_na_information =
     bind (assert (method \<in> set known_methods) method_message) (\<lambda>u.
     bind (get_columns df) (\<lambda>cols.
     let overrides = (case classifier_overrides of None \<Rightarrow> [] | Some names \<Rightarrow> names);
         estimator_mapping = estimator_loop cols overrides random_state Map.empty
     in
     bind (outer_loop L df method estimator_mapping cols (enumerate 0 cols) ([], [])) (\<lambda>acc.
     return (if include_na_information
             then ResultsAndNaNInfo (fst acc) (snd acc)
             else Results (fst acc)))))"

text \<open>The score table of either form of the result, and whether the second table comes with it.\<close>

fun results_of :: "discover_result \<Rightarrow> score_record list" where
  "results_of (Results ds) = ds"
| "results_of (ResultsAndNaNInfo ds ns) = ds"

fun has_nan_info :: "discover_result \<Rightarrow> bool" where
  "has_nan_info (Results ds) = False"
| "has_nan_info (ResultsAndNaNInfo ds ns) = True"

text \<open>The estimator line 34 to 37 construct for a column label.\<close>

definition estimator_for :: "string list \<Rightarrow> int option \<Rightarrow> string \<Rightarrow> estimator" where
  "estimator_for classifier_overrides random_state col =
     (if col \<in> set classifier_overrides
      then RandomForestClassifier 50 random_state
      else RandomForestRegressor 50 random_state)"

section \<open>A small dataset\<close>

text \<open>
  Three rows, a numeric column \<open>a\<close> whose first cell is missing and an object column \<open>b\<close>,
  held at reference 0 of a store with one object and the generator in state 0; and stand-ins
  for the library routines: an encoder that gives every cell the code 0; fold scores equal to
  the number of rows scored plus the state of the generator drawn from (negated for a
  classifier), each call advancing that generator by the number of folds; a seeded generator
  that starts in the state of its seed; the first element as the mean; and the number of rows as
  the correlation. The theorems below hold for every library; the stand-ins serve to run them
  once.
\<close>

fun state_of :: "generator \<Rightarrow> nat" where
  "state_of (Generator n) = n"

definition example_lib :: "int lib" where
  "example_lib = \<lparr>fit_transform = (\<lambda>cs. Inr (map (\<lambda>c. 0) cs)),
     cross_val_score = (\<lambda>est X y k g.
        (Inr (replicate k
           (case est of
              RandomForestClassifier n seed \<Rightarrow> Float (- real (n_rows X + state_of g))
            | RandomForestRegressor n seed \<Rightarrow> Float (real (n_rows X + state_of g)))),
         Generator (state_of g + k))),
     seeded = (\<lambda>seed. Generator (nat seed)),
     mean = (\<lambda>xs. case xs of [] \<Rightarrow> NaN | x # r \<Rightarrow> x),
     corr = (\<lambda>P m f t. Inr (Float (real (n_rows P))))\<rparr>"

definition example_frame :: "int dataframe" where
  "example_frame = \<lparr>n_rows = 3,
     data = [(''a'', \<lparr>dtype = Numeric, cells = [NA, Val 1, Val 1]\<rparr>),
             (''b'', \<lparr>dtype = Object, cells = [Val 0, Val 1, Val 2]\<rparr>)]\<rparr>"

definition example_store :: "int store" where
  "example_store = \<lparr>frames = (\<lambda>r. example_frame), next_ref = 1, generator = Generator 0\<rparr>"

section \<open>What a call computes from the dataset\<close>

text \<open>
  The outcome of each step as a function of the frames it reads, without the store of frames:
  the same steps in the same order on frames instead of references. The steps before the
  score are functions; the score and what follows are programs on the generator. The
  simulation lemmas below show that the programs above compute exactly these outcomes.
\<close>

definition and_then :: "py_error + 'x \<Rightarrow> ('x \<Rightarrow> py_error + 'y) \<Rightarrow> py_error + 'y" where
  "and_then r f = (case r of Inl e \<Rightarrow> Inl e | Inr x \<Rightarrow> f x)"

definition called :: "string + 'x \<Rightarrow> py_error + 'x" where
  "called r = (case r of Inl msg \<Rightarrow> Inl (LibraryError msg) | Inr x \<Rightarrow> Inr x)"

fun labelencode_frame :: "'a lib \<Rightarrow> string list \<Rightarrow> 'a dataframe \<Rightarrow> py_error + 'a dataframe" where
  "labelencode_frame L [] fr = Inr fr"
| "labelencode_frame L (col # cols) fr =
     and_then (getitem_frame fr col) (\<lambda>s.
       if dtype s = Object then
         and_then (called (fit_transform L (cells s))) (\<lambda>replacement_series.
         and_then (drop_frame fr [col]) (\<lambda>fr'.
         and_then (setitem_frame fr' col replacement_series) (\<lambda>fr''.
         labelencode_frame L cols fr'')))
       else labelencode_frame L cols fr)"

definition prepare_value :: "'a dataframe \<Rightarrow> string \<Rightarrow> string \<Rightarrow> py_error + 'a dataframe \<times> nan_info" where
  "prepare_value fr feat targ =
     and_then (getitem_list_frame fr [feat, targ]) (\<lambda>df_ml.
     let rows_before_drop_na = n_rows df_ml;
         df_ml' = dropna_frame df_ml;
         rows_after_drop_na = n_rows df_ml';
         n_dropped_na = int rows_before_drop_na - int rows_after_drop_na in
     and_then (py_truediv n_dropped_na (int rows_before_drop_na)) (\<lambda>pct.
     Inr (df_ml', \<lparr>feature = feat, target = targ,
                    n_dropped_na = n_dropped_na, pct_dropped_na = pct\<rparr>)))"

definition score_value :: "'a lib \<Rightarrow> 'a dataframe \<Rightarrow> string \<Rightarrow> estimator \<Rightarrow> string \<Rightarrow> string \<Rightarrow>
    (generator, pyfloat) prog" where
  "score_value L df_ml method est feat targ =
     bind (lift (getitem_list_frame df_ml [feat])) (\<lambda>X.
     bind (lift (getitem_frame df_ml targ)) (\<lambda>df_y.
     bind (assert (isnull_sum_sum X = 0) []) (\<lambda>u.
     bind (assert (isnull_sum df_y = 0) []) (\<lambda>u.
     bind (if method = ''rf''
           then bind (run_cross_val_score L est X df_y 3) (\<lambda>scores. return (mean L scores))
           else return (Float 0)) (\<lambda>score.
     if method \<in> set corr_methods
     then bind (lift (getitem_list_frame df_ml [feat, targ])) (\<lambda>P.
          bind (assert (length (data P) = 2) []) (\<lambda>u.
          call (corr L P method feat targ)))
     else return score)))))"

definition pair_value :: "'a lib \<Rightarrow> 'a dataframe \<Rightarrow> string \<Rightarrow> estimator \<Rightarrow> string \<Rightarrow> string \<Rightarrow>
    (generator, nan_info \<times> score_record) prog" where
  "pair_value L fr method est feat targ =
     bind (lift (prepare_value fr feat targ)) (\<lambda>prepared.
     bind (lift (labelencode_frame L (columns (fst prepared)) (fst prepared))) (\<lambda>df_ml.
     bind (score_value L df_ml method est feat targ) (\<lambda>score.
     return (snd prepared, \<lparr>feature = feat, target = targ, score = score\<rparr>))))"

text \<open>Running a step over a list, stopping at the first exception.\<close>

fun collect :: "('p \<Rightarrow> ('s, 'r) prog) \<Rightarrow> 'p list \<Rightarrow> ('s, 'r list) prog" where
  "collect f [] = return []"
| "collect f (x # xs) = bind (f x) (\<lambda>r. bind (collect f xs) (\<lambda>rs. return (r # rs)))"

text \<open>
  The pairs (feature, target) in the order the two loops visit them: every position of the
  column list as target, and for it every other position as feature.
\<close>

definition features_for :: "string list \<Rightarrow> nat \<Rightarrow> string list" where
  "features_for cols idx_Y = map snd (filter (\<lambda>x. fst x \<noteq> idx_Y) (enumerate 0 cols))"

definition pairs_from :: "string list \<Rightarrow> (nat \<times> string) list \<Rightarrow> (string \<times> string) list" where
  "pairs_from cols ys = concat (map (\<lambda>y. map (\<lambda>feat. (feat, snd y)) (features_for cols (fst y))) ys)"

definition visited_pairs :: "string list \<Rightarrow> (string \<times> string) list" where
  "visited_pairs cols = pairs_from cols (enumerate 0 cols)"

text \<open>
  A store extends another when every object of the first is in the second, unchanged.
\<close>

definition extends :: "'a store \<Rightarrow> 'a store \<Rightarrow> bool" where
  "extends h h' = (next_ref h \<le> next_ref h' \<and> (\<forall>r. r < next_ref h \<longrightarrow> frames h' r = frames h r))"

text \<open>
  A program on the store computes a program on the generator when, run from a store, it has
  the outcome the second has from the store's generator, leaves the generator the second
  leaves, and extends the store.
\<close>

definition computes :: "('a store, 'x) prog \<Rightarrow> 'a store \<Rightarrow> (generator, 'x) prog \<Rightarrow> bool" where
  "computes P h V =
     (fst (P h) = fst (V (generator h))
      \<and> generator (snd (P h)) = snd (V (generator h))
      \<and> extends h (snd (P h)))"

text \<open>The outcome of \<^verbatim>\<open>discover\<close> as a program on the generator, given the dataset.\<close>

definition discover_value :: "'a lib \<Rightarrow> 'a dataframe \<Rightarrow> string list option \<Rightarrow> string \<Rightarrow> int option \<Rightarrow> bool \<Rightarrow>
    (generator, discover_result) prog" where
  "discover_value L fr classifier_overrides method random_state include_na_information =
     bind (assert (method \<in> set known_methods) method_message) (\<lambda>u.
     let overrides = (case classifier_overrides of None \<Rightarrow> [] | Some names \<Rightarrow> names) in
     bind (collect (\<lambda>p. pair_value L fr method (estimator_for overrides random_state (snd p)) (fst p) (snd p))
             (visited_pairs (columns fr))) (\<lambda>rs.
     return (if include_na_information
             then ResultsAndNaNInfo (map snd rs) (map fst rs)
             else Results (map snd rs))))"


text \<open>A dataset with two columns and no rows, at reference 0 of a store of its own.\<close>

definition example_empty_frame :: "int dataframe" where
  "example_empty_frame = \<lparr>n_rows = 0,
     data = [(''a'', \<lparr>dtype = Numeric, cells = []\<rparr>),
             (''b'', \<lparr>dtype = Numeric, cells = []\<rparr>)]\<rparr>"

definition example_empty_store :: "int store" where
  "example_empty_store = \<lparr>frames = (\<lambda>r. example_empty_frame), next_ref = 1, generator = Generator 0\<rparr>"

text \<open>A dataset with three numeric columns and two rows, at reference 0 of a store of its own.\<close>

definition example_wide_frame :: "int dataframe" where
  "example_wide_frame = \<lparr>n_rows = 2,
     data = [(''x'', \<lparr>dtype = Numeric, cells = [Val 1, Val 2]\<rparr>),
             (''y'', \<lparr>dtype = Numeric, cells = [Val 3, NA]\<rparr>),
             (''z'', \<lparr>dtype = Numeric, cells = [Val 5, Val 6]\<rparr>)]\<rparr>"

definition example_wide_store :: "int store" where
  "example_wide_store = \<lparr>frames = (\<lambda>r. example_wide_frame), next_ref = 1, generator = Generator 0\<rparr>"





section \<open>Running programs\<close>

lemma bind_apply: "bind m f h = (case m h of (Inl e, h') \<Rightarrow> (Inl e, h') | (Inr x, h') \<Rightarrow> f x h')"
  by (simp add: bind_def)

lemma bind_return [simp]: "bind (return x) f = f x"
  by (rule ext) (simp add: bind_def return_def)

lemma bind_raise [simp]: "bind (raise e) f = raise e"
  by (rule ext) (simp add: bind_def raise_def)

lemma bind_assoc: "bind (bind m f) g = bind m (\<lambda>x. bind (f x) g)"
  by (rule ext) (simp add: bind_def split: prod.splits sum.splits)

lemma bind_return_right [simp]: "bind m return = m"
  by (rule ext) (simp add: bind_def return_def split: prod.splits sum.splits)

lemma bind_lift_Inr [simp]: "bind (lift (Inr x)) f = f x"
  by (rule ext) (simp add: bind_def lift_def)

lemma bind_lift_Inl [simp]: "bind (lift (Inl e)) f = raise e"
  by (rule ext) (simp add: bind_def lift_def raise_def)

lemma raise_apply: "raise e g = (Inl e, g)"
  by (simp add: raise_def)

lemma return_apply: "return x g = (Inr x, g)"
  by (simp add: return_def)

lemma get_columns_apply: "get_columns df h = (Inr (columns (frames h df)), h)"
  by (simp add: get_columns_def read_frame_def bind_apply return_def)

lemma dict_lookup_Some: "d k = Some v \<Longrightarrow> dict_lookup d k = return v"
  by (simp add: dict_lookup_def)

subsection \<open>The estimator dictionary\<close>

lemma estimator_loop_lookup:
  "estimator_loop cols co rs m k = (if k \<in> set cols then Some (estimator_for co rs k) else m k)"
  by (induction cols arbitrary: m) (auto simp: estimator_for_def Let_def)

lemma estimator_loop_overrides_cong:
  "(\<And>c. c \<in> set cols \<Longrightarrow> (c \<in> set co1) = (c \<in> set co2)) \<Longrightarrow>
   estimator_loop cols co1 rs m = estimator_loop cols co2 rs m"
  by (rule ext) (simp add: estimator_loop_lookup estimator_for_def)

subsection \<open>discover after its first two steps\<close>

lemma discover_unfold:
  "discover L df co method rs flag h =
     (if method \<in> set known_methods
      then bind (outer_loop L df method
                  (estimator_loop (columns (frames h df)) (case co of None \<Rightarrow> [] | Some names \<Rightarrow> names) rs Map.empty)
                  (columns (frames h df)) (enumerate 0 (columns (frames h df))) ([], []))
             (\<lambda>acc. return (if flag then ResultsAndNaNInfo (fst acc) (snd acc) else Results (fst acc))) h
      else (Inl (AssertionError method_message), h))"
proof (cases "method \<in> set known_methods")
  case True
  then show ?thesis
    by (simp add: discover_def assert_def Let_def bind_apply [of "get_columns df"] get_columns_apply)
next
  case False
  then have "discover L df co method rs flag = raise (AssertionError method_message)"
    by (simp add: discover_def assert_def)
  with False show ?thesis
    by (simp add: raise_def)
qed

subsection \<open>The estimator is used by the random forest method only\<close>

lemma process_pair_without_rf:
  "method \<noteq> ''rf'' \<Longrightarrow> process_pair L df method est1 feat targ = process_pair L df method est2 feat targ"
  by (simp add: process_pair_def score_pair_def)

lemma inner_loop_without_rf:
  "method \<noteq> ''rf'' \<Longrightarrow>
   inner_loop L df method est1 idx_Y targ xs acc = inner_loop L df method est2 idx_Y targ xs acc"
proof (induction xs arbitrary: acc)
  case Nil
  show ?case by simp
next
  case (Cons x xs)
  obtain idx_X feat where x: "x = (idx_X, feat)" by (cases x)
  show ?case
    unfolding x by (simp add: Cons.IH [OF Cons.prems] process_pair_without_rf [OF Cons.prems, of L df est1 feat targ est2])
qed

lemma outer_loop_without_rf:
  assumes "method \<noteq> ''rf''"
    and "\<And>t. t \<in> snd ` set ys \<Longrightarrow> em1 t \<noteq> None \<and> em2 t \<noteq> None"
  shows "outer_loop L df method em1 cols ys acc = outer_loop L df method em2 cols ys acc"
  using assms(2)
proof (induction ys arbitrary: acc)
  case Nil
  show ?case by simp
next
  case (Cons y ys)
  obtain idx_Y targ where y: "y = (idx_Y, targ)" by (cases y)
  from Cons.prems [of targ] obtain e1 e2 where e: "em1 targ = Some e1" "em2 targ = Some e2"
    by (auto simp: y)
  have ih: "outer_loop L df method em1 cols ys = outer_loop L df method em2 cols ys"
    by (rule ext, rule Cons.IH) (use Cons.prems in auto)
  show ?case
    unfolding y
    by (simp add: dict_lookup_Some e ih inner_loop_without_rf [OF assms(1), of L df e1 idx_Y targ _ _ e2])
qed

subsection \<open>The programs compute the outcomes on frames and change no object they were given\<close>

lemma extends_refl [simp]: "extends h h"
  by (simp add: extends_def)

lemma extends_trans: "extends h h' \<Longrightarrow> extends h' h'' \<Longrightarrow> extends h h''"
  by (auto simp: extends_def)

lemma extends_frames: "extends h h' \<Longrightarrow> r < next_ref h \<Longrightarrow> frames h' r = frames h r"
  by (simp add: extends_def)

lemma extends_next: "extends h h' \<Longrightarrow> r < next_ref h \<Longrightarrow> r < next_ref h'"
  by (simp add: extends_def)

lemmas prog_defs = bind_apply getitem_def read_frame_def lift_def call_def raise_def return_def
  drop_columns_def new_frame_def setitem_def write_frame_def

lemma labelencode_loop_sim:
  "r < next_ref h \<Longrightarrow>
   extends h (snd (labelencode_loop L cols r h)) \<and>
   generator (snd (labelencode_loop L cols r h)) = generator h \<and>
   (case fst (labelencode_loop L cols r h) of
      Inl e \<Rightarrow> labelencode_frame L cols (frames h r) = Inl e
    | Inr r' \<Rightarrow> r' < next_ref (snd (labelencode_loop L cols r h)) \<and>
        labelencode_frame L cols (frames h r) = Inr (frames (snd (labelencode_loop L cols r h)) r'))"
proof (induction cols arbitrary: r h)
  case Nil
  then show ?case by (simp add: return_def)
next
  case (Cons col cols)
  let ?fr = "frames h r"
  show ?case
  proof (cases "getitem_frame ?fr col")
    case (Inl e)
    have run: "labelencode_loop L (col # cols) r h = (Inl e, h)"
      using Inl by (simp add: prog_defs)
    have pure: "labelencode_frame L (col # cols) ?fr = Inl e"
      using Inl by (simp add: and_then_def)
    show ?thesis unfolding run pure by simp
  next
    case (Inr s)
    show ?thesis
    proof (cases "dtype s = Object")
      case False
      have run: "labelencode_loop L (col # cols) r h = labelencode_loop L cols r h"
        using Inr False by (simp add: prog_defs)
      have pure: "labelencode_frame L (col # cols) ?fr = labelencode_frame L cols ?fr"
        using Inr False by (simp add: and_then_def)
      show ?thesis unfolding run pure by (rule Cons.IH [OF Cons.prems])
    next
      case True
      show ?thesis
      proof (cases "fit_transform L (cells s)")
        case (Inl msg)
        have run: "labelencode_loop L (col # cols) r h = (Inl (LibraryError msg), h)"
          using Inr True Inl by (simp add: prog_defs)
        have pure: "labelencode_frame L (col # cols) ?fr = Inl (LibraryError msg)"
          using Inr True Inl by (simp add: and_then_def called_def)
        show ?thesis unfolding run pure by simp
      next
        case rep: (Inr rep)
        show ?thesis
        proof (cases "drop_frame ?fr [col]")
          case (Inl e)
          have run: "labelencode_loop L (col # cols) r h = (Inl e, h)"
            using Inr True rep Inl by (simp add: prog_defs)
          have pure: "labelencode_frame L (col # cols) ?fr = Inl e"
            using Inr True rep Inl by (simp add: and_then_def called_def)
          show ?thesis unfolding run pure by simp
        next
          case fr': (Inr fr')
          define h1 where "h1 = h\<lparr>frames := (frames h)(next_ref h := fr'), next_ref := Suc (next_ref h)\<rparr>"
          have e1: "extends h h1" and g1: "generator h1 = generator h"
            by (simp_all add: extends_def h1_def)
          show ?thesis
          proof (cases "setitem_frame fr' col rep")
            case (Inl e)
            have run: "labelencode_loop L (col # cols) r h = (Inl e, h1)"
              using Inr True rep fr' Inl by (simp add: prog_defs h1_def)
            have pure: "labelencode_frame L (col # cols) ?fr = Inl e"
              using Inr True rep fr' Inl by (simp add: and_then_def called_def)
            show ?thesis unfolding run pure using e1 g1 by simp
          next
            case fr'': (Inr fr'')
            define h2 where "h2 = h1\<lparr>frames := (frames h1)(next_ref h := fr'')\<rparr>"
            have run: "labelencode_loop L (col # cols) r h = labelencode_loop L cols (next_ref h) h2"
              using Inr True rep fr' fr'' by (simp add: prog_defs h1_def h2_def)
            have pure: "labelencode_frame L (col # cols) ?fr = labelencode_frame L cols (frames h2 (next_ref h))"
              using Inr True rep fr' fr'' by (simp add: and_then_def called_def h2_def)
            have e: "extends h h2" and g: "generator h2 = generator h"
              by (simp_all add: extends_def h1_def h2_def)
            have lt: "next_ref h < next_ref h2" by (simp add: h1_def h2_def)
            from Cons.IH [OF lt] e g show ?thesis
              unfolding run pure by (auto intro: extends_trans split: sum.splits)
          qed
        qed
      qed
    qed
  qed
qed

lemma labelencode_if_object_sim:
  assumes "r < next_ref h"
  shows "extends h (snd (labelencode_if_object L r h)) \<and>
   generator (snd (labelencode_if_object L r h)) = generator h \<and>
   (case fst (labelencode_if_object L r h) of
      Inl e \<Rightarrow> labelencode_frame L (columns (frames h r)) (frames h r) = Inl e
    | Inr r' \<Rightarrow> r' < next_ref (snd (labelencode_if_object L r h)) \<and>
        labelencode_frame L (columns (frames h r)) (frames h r) =
          Inr (frames (snd (labelencode_if_object L r h)) r'))"
proof -
  have "labelencode_if_object L r h = labelencode_loop L (columns (frames h r)) r h"
    by (simp add: labelencode_if_object_def bind_apply [of "get_columns r"] get_columns_apply)
  then show ?thesis
    using labelencode_loop_sim [OF assms, of L "columns (frames h r)"] by presburger
qed

lemma prepare_pair_sim:
  "extends h (snd (prepare_pair df feat targ h)) \<and>
   generator (snd (prepare_pair df feat targ h)) = generator h \<and>
   (case fst (prepare_pair df feat targ h) of
      Inl e \<Rightarrow> prepare_value (frames h df) feat targ = Inl e
    | Inr p \<Rightarrow> fst p < next_ref (snd (prepare_pair df feat targ h)) \<and>
        prepare_value (frames h df) feat targ =
          Inr (frames (snd (prepare_pair df feat targ h)) (fst p), snd p))"
  by (simp add: prepare_pair_def prepare_value_def prog_defs getitem_list_def shape0_def dropna_def
      and_then_def Let_def extends_def split: sum.splits)

lemma computes_bind:
  assumes "computes P h V"
    and "\<And>x. fst (P h) = Inr x \<Longrightarrow> computes (F x) (snd (P h)) (G x)"
  shows "computes (bind P F) h (bind V G)"
proof -
  obtain res h1 where p: "P h = (res, h1)"
    by (cases "P h")
  with assms(1) have v: "V (generator h) = (res, generator h1)" and e: "extends h h1"
    by (simp_all add: computes_def prod_eq_iff)
  show ?thesis
  proof (cases res)
    case (Inl e')
    with p v e show ?thesis
      by (simp add: computes_def bind_apply)
  next
    case (Inr x)
    with assms(2) [of x] p have "computes (F x) h1 (G x)"
      by simp
    with Inr p v e show ?thesis
      by (auto simp: computes_def bind_apply intro: extends_trans)
  qed
qed

lemma computes_return [simp]: "computes (return x) h (return x)"
  by (simp add: computes_def return_def)

lemma computes_raise [simp]: "computes (raise e) h (raise e)"
  by (simp add: computes_def raise_def)

lemma computes_assert_bind:
  "(b \<Longrightarrow> computes F h G) \<Longrightarrow> computes (bind (assert b msg) (\<lambda>u. F)) h (bind (assert b msg) (\<lambda>u. G))"
  by (cases b) (simp_all add: assert_def)

lemma computes_on_generator: "computes (on_generator m) h m"
  by (simp add: computes_def on_generator_def extends_def split: prod.splits)

lemma on_generator_store:
  "frames (snd (on_generator m h)) = frames h \<and> next_ref (snd (on_generator m h)) = next_ref h"
  by (simp add: on_generator_def split: prod.splits)

lemma correlation_step_sim:
  assumes "r < next_ref h"
  shows "computes
      (bind (getitem_list r [feat, targ]) (\<lambda>pair.
       bind (shape1 pair) (\<lambda>n.
       bind (assert (n = 2) []) (\<lambda>u.
       bind (read_frame pair) (\<lambda>P.
       call (corr L P method feat targ)))))) h
      (bind (lift (getitem_list_frame (frames h r) [feat, targ])) (\<lambda>P.
       bind (assert (length (data P) = 2) []) (\<lambda>u.
       call (corr L P method feat targ))))"
  using assms
  by (simp add: computes_def prog_defs getitem_list_def shape1_def assert_def extends_def
      split: sum.splits)

lemma forest_step_sim:
  "computes (if c then bind (on_generator m) (\<lambda>scores. return (k scores)) else return z) h
     (if c then bind m (\<lambda>scores. return (k scores)) else return z)"
  by (cases c) (simp_all add: computes_bind [OF computes_on_generator])

lemma forest_step_store:
  "frames (snd ((if c then bind (on_generator m) (\<lambda>scores. return (k scores)) else return z) h)) = frames h
   \<and> next_ref (snd ((if c then bind (on_generator m) (\<lambda>scores. return (k scores)) else return z) h)) = next_ref h"
  using on_generator_store [of m h]
  by (cases c; cases "on_generator m h"; cases "fst (on_generator m h)")
     (simp_all add: bind_apply return_def)

lemma score_pair_sim:
  assumes "r < next_ref h"
  shows "computes (score_pair L r method est feat targ) h (score_value L (frames h r) method est feat targ)"
proof -
  let ?fr = "frames h r"
  let ?C = "bind (getitem_list r [feat, targ]) (\<lambda>pair.
       bind (shape1 pair) (\<lambda>n.
       bind (assert (n = 2) []) (\<lambda>u.
       bind (read_frame pair) (\<lambda>P.
       call (corr L P method feat targ)))))"
  let ?C' = "bind (lift (getitem_list_frame ?fr [feat, targ])) (\<lambda>P.
       bind (assert (length (data P) = 2) []) (\<lambda>u.
       call (corr L P method feat targ)))"
  let ?S = "\<lambda>X y. if method = ''rf''
       then bind (on_generator (run_cross_val_score L est X y 3)) (\<lambda>scores. return (mean L scores))
       else return (Float 0)"
  let ?S' = "\<lambda>X y. if method = ''rf''
       then bind (run_cross_val_score L est X y 3) (\<lambda>scores. return (mean L scores))
       else return (Float 0)"
  let ?T = "\<lambda>X y. bind (assert (isnull_sum_sum X = 0) []) (\<lambda>u.
       bind (assert (isnull_sum y = 0) []) (\<lambda>u.
       bind (?S X y) (\<lambda>score. if method \<in> set corr_methods then ?C else return score)))"
  let ?T' = "\<lambda>X y. bind (assert (isnull_sum_sum X = 0) []) (\<lambda>u.
       bind (assert (isnull_sum y = 0) []) (\<lambda>u.
       bind (?S' X y) (\<lambda>score. if method \<in> set corr_methods then ?C' else return score)))"
  have tail: "computes (?T X y) h1 (?T' X y)"
    if lt: "r < next_ref h1" and fr: "frames h1 r = frames h r" for X y h1
  proof (rule computes_assert_bind, rule computes_assert_bind, rule computes_bind [OF forest_step_sim])
    fix sc
    let ?h2 = "snd (?S X y h1)"
    have st: "frames ?h2 = frames h1" "next_ref ?h2 = next_ref h1"
      using forest_step_store [of "method = ''rf''" "run_cross_val_score L est X y 3" "mean L" "Float 0" h1]
      by simp_all
    have "computes ?C ?h2 (bind (lift (getitem_list_frame (frames ?h2 r) [feat, targ])) (\<lambda>P.
       bind (assert (length (data P) = 2) []) (\<lambda>u.
       call (corr L P method feat targ))))"
      by (rule correlation_step_sim) (simp add: st lt)
    then have "computes ?C ?h2 ?C'"
      by (simp only: st fr)
    then show "computes (if method \<in> set corr_methods then ?C else return sc) ?h2
        (if method \<in> set corr_methods then ?C' else return sc)"
      by (cases "method \<in> set corr_methods") simp_all
  qed
  have val: "score_value L ?fr method est feat targ =
      bind (lift (getitem_list_frame ?fr [feat])) (\<lambda>X.
      bind (lift (getitem_frame ?fr targ)) (\<lambda>y. ?T' X y))"
    by (simp add: score_value_def)
  show ?thesis
  proof (cases "getitem_list_frame ?fr [feat]")
    case (Inl e)
    have "getitem_list r [feat] h = (Inl e, h)"
      using Inl by (simp add: getitem_list_def prog_defs)
    then have run: "score_pair L r method est feat targ h = (Inl e, h)"
      by (simp add: score_pair_def bind_apply [of "getitem_list r [feat]"])
    show ?thesis
      unfolding val Inl by (simp add: computes_def run raise_def)
  next
    case (Inr X)
    define h1 where "h1 = h\<lparr>frames := (frames h)(next_ref h := X), next_ref := Suc (next_ref h)\<rparr>"
    have e1: "extends h h1" and g1: "generator h1 = generator h"
      and lt: "r < next_ref h1" and fr: "frames h1 r = frames h r"
      and new: "frames h1 (next_ref h) = X"
      using assms by (simp_all add: extends_def h1_def)
    have a: "getitem_list r [feat] h = (Inr (next_ref h), h1)"
      using Inr by (simp add: getitem_list_def prog_defs h1_def)
    have c: "read_frame (next_ref h) h1 = (Inr X, h1)"
      by (simp add: read_frame_def new)
    show ?thesis
    proof (cases "getitem_frame ?fr targ")
      case (Inl e)
      have b: "getitem r targ h1 = (Inl e, h1)"
        using Inl by (simp add: getitem_def read_frame_def lift_def bind_apply fr)
      have run: "score_pair L r method est feat targ h = (Inl e, h1)"
        by (simp add: score_pair_def bind_apply [of "getitem_list r [feat]"]
            bind_apply [of "getitem r targ"] a b)
      show ?thesis
        unfolding val Inr Inl using e1 g1 by (simp add: computes_def run raise_def)
    next
      case y: (Inr y)
      have b: "getitem r targ h1 = (Inr y, h1)"
        using y by (simp add: getitem_def read_frame_def lift_def bind_apply fr)
      have run: "score_pair L r method est feat targ h = ?T X y h1"
        by (simp add: score_pair_def bind_apply [of "getitem_list r [feat]"]
            bind_apply [of "getitem r targ"] bind_apply [of "read_frame (next_ref h)"] a b c)
      have v: "score_value L ?fr method est feat targ = ?T' X y"
        unfolding val Inr y by simp
      from tail [OF lt fr, of X y] e1 g1 show ?thesis
        unfolding computes_def run v by (auto intro: extends_trans)
    qed
  qed
qed

lemma process_pair_sim:
  "computes (process_pair L df method est feat targ) h (pair_value L (frames h df) method est feat targ)"
proof -
  obtain res1 h1 where p: "prepare_pair df feat targ h = (res1, h1)"
    by (cases "prepare_pair df feat targ h")
  have e1: "extends h h1" and g1: "generator h1 = generator h"
    and v1: "case res1 of Inl e \<Rightarrow> prepare_value (frames h df) feat targ = Inl e
              | Inr p \<Rightarrow> fst p < next_ref h1 \<and> prepare_value (frames h df) feat targ = Inr (frames h1 (fst p), snd p)"
    using prepare_pair_sim [of h df feat targ] unfolding p by (auto split: sum.splits)
  show ?thesis
  proof (cases res1)
    case (Inl e)
    with p v1 e1 g1 show ?thesis
      by (simp add: computes_def process_pair_def pair_value_def bind_apply raise_def)
  next
    case (Inr p1)
    with v1 have lt1: "fst p1 < next_ref h1"
      and pv: "prepare_value (frames h df) feat targ = Inr (frames h1 (fst p1), snd p1)"
      by simp_all
    obtain res2 h2 where l: "labelencode_if_object L (fst p1) h1 = (res2, h2)"
      by (cases "labelencode_if_object L (fst p1) h1")
    have e2: "extends h1 h2" and g2: "generator h2 = generator h1"
      and v2: "case res2 of
          Inl e \<Rightarrow> labelencode_frame L (columns (frames h1 (fst p1))) (frames h1 (fst p1)) = Inl e
        | Inr r' \<Rightarrow> r' < next_ref h2 \<and>
            labelencode_frame L (columns (frames h1 (fst p1))) (frames h1 (fst p1)) = Inr (frames h2 r')"
      using labelencode_if_object_sim [OF lt1, of L] unfolding l by (auto split: sum.splits)
    have e12: "extends h h2"
      using e1 e2 by (rule extends_trans)
    show ?thesis
    proof (cases res2)
      case (Inl e)
      with p Inr l v2 pv e12 g1 g2 show ?thesis
        by (simp add: computes_def process_pair_def pair_value_def bind_apply raise_def)
    next
      case r2: (Inr r2)
      with v2 have lt2: "r2 < next_ref h2"
        and lv: "labelencode_frame L (columns (frames h1 (fst p1))) (frames h1 (fst p1)) = Inr (frames h2 r2)"
        by simp_all
      let ?k = "\<lambda>sc. return (snd p1, \<lparr>feature = feat, target = targ, score = sc\<rparr>)"
      have run: "process_pair L df method est feat targ h =
          bind (score_pair L r2 method est feat targ) ?k h2"
        using p Inr l r2 by (simp add: process_pair_def bind_apply)
      have val: "pair_value L (frames h df) method est feat targ (generator h) =
          bind (score_value L (frames h2 r2) method est feat targ) ?k (generator h2)"
        using pv lv g1 g2 by (simp add: pair_value_def)
      have "computes (bind (score_pair L r2 method est feat targ) ?k) h2
              (bind (score_value L (frames h2 r2) method est feat targ) ?k)"
        by (rule computes_bind [OF score_pair_sim [OF lt2]]) simp
      then show ?thesis
        using e12 g1 g2 unfolding computes_def run val
        by (auto intro: extends_trans)
    qed
  qed
qed

lemma and_then_Inr [simp]: "and_then (Inr x) f = f x"
  by (simp add: and_then_def)

lemma and_then_Inl [simp]: "and_then (Inl e) f = Inl e"
  by (simp add: and_then_def)

lemma bind_collect_Cons:
  "bind (collect f (x # xs)) k = bind (f x) (\<lambda>r. bind (collect f xs) (\<lambda>rs. k (r # rs)))"
  by (simp add: bind_assoc)

lemma collect_append:
  "collect f (xs @ ys) = bind (collect f xs) (\<lambda>rs. bind (collect f ys) (\<lambda>rs'. return (rs @ rs')))"
  by (induction xs) (simp_all add: bind_assoc)

lemma bind_collect_append:
  "bind (collect f (xs @ ys)) k = bind (collect f xs) (\<lambda>rs. bind (collect f ys) (\<lambda>rs'. k (rs @ rs')))"
  by (simp add: collect_append bind_assoc)

lemma collect_map: "collect f (map k xs) = collect (\<lambda>x. f (k x)) xs"
  by (induction xs) simp_all

lemma inner_loop_sim:
  assumes "df < next_ref h"
  shows "computes (inner_loop L df method est idx_Y targ xs acc) h
      (bind (collect (\<lambda>feat. pair_value L (frames h df) method est feat targ)
                  (map snd (filter (\<lambda>x. fst x \<noteq> idx_Y) xs)))
        (\<lambda>rs. return (fst acc @ map snd rs, snd acc @ map fst rs)))"
  using assms
proof (induction xs arbitrary: acc h)
  case Nil
  show ?case by simp
next
  case (Cons x xs)
  obtain idx_X feat where x: "x = (idx_X, feat)" by (cases x)
  show ?case
  proof (cases "idx_X = idx_Y")
    case True
    then show ?thesis
      using Cons.IH [OF Cons.prems] by (simp add: x)
  next
    case False
    let ?rest = "map snd (filter (\<lambda>x. fst x \<noteq> idx_Y) xs)"
    have step: "computes (inner_loop L df method est idx_Y targ xs (fst acc @ [snd r], snd acc @ [fst r]))
        (snd (process_pair L df method est feat targ h))
        (bind (collect (\<lambda>feat. pair_value L (frames h df) method est feat targ) ?rest)
           (\<lambda>rs. return (fst acc @ map snd (r # rs), snd acc @ map fst (r # rs))))" for r
    proof -
      let ?h1 = "snd (process_pair L df method est feat targ h)"
      have e1: "extends h ?h1"
        using process_pair_sim [of L df "method" est feat targ h] by (simp add: computes_def)
      have lt: "df < next_ref ?h1" and fr: "frames ?h1 df = frames h df"
        using e1 Cons.prems by (simp_all add: extends_def)
      from Cons.IH [OF lt, of "(fst acc @ [snd r], snd acc @ [fst r])"] show ?thesis
        by (simp add: fr)
    qed
    have "computes (bind (process_pair L df method est feat targ) (\<lambda>r.
             inner_loop L df method est idx_Y targ xs (fst acc @ [snd r], snd acc @ [fst r]))) h
          (bind (pair_value L (frames h df) method est feat targ) (\<lambda>r.
             bind (collect (\<lambda>feat. pair_value L (frames h df) method est feat targ) ?rest)
               (\<lambda>rs. return (fst acc @ map snd (r # rs), snd acc @ map fst (r # rs)))))"
      by (rule computes_bind [OF process_pair_sim]) (rule step)
    with False show ?thesis
      by (simp add: x bind_assoc)
  qed
qed

lemma outer_loop_sim:
  assumes "df < next_ref h"
    and "\<forall>t \<in> snd ` set ys. em t = Some (E t)"
  shows "computes (outer_loop L df method em cols ys acc) h
      (bind (collect (\<lambda>p. pair_value L (frames h df) method (E (snd p)) (fst p) (snd p))
                  (pairs_from cols ys))
        (\<lambda>rs. return (fst acc @ map snd rs, snd acc @ map fst rs)))"
  using assms
proof (induction ys arbitrary: acc h)
  case Nil
  show ?case by (simp add: pairs_from_def)
next
  case (Cons y ys)
  obtain idx_Y targ where y: "y = (idx_Y, targ)" by (cases y)
  have em: "em targ = Some (E targ)"
    using Cons.prems(2) by (simp add: y)
  have rest: "\<forall>t \<in> snd ` set ys. em t = Some (E t)"
    using Cons.prems(2) by auto
  let ?PV = "\<lambda>p. pair_value L (frames h df) method (E (snd p)) (fst p) (snd p)"
  let ?inner = "inner_loop L df method (E targ) idx_Y targ (enumerate 0 cols) acc"
  have pf: "pairs_from cols ((idx_Y, targ) # ys) = map (\<lambda>feat. (feat, targ)) (features_for cols idx_Y) @ pairs_from cols ys"
    by (simp add: pairs_from_def)
  have c1: "collect ?PV (map (\<lambda>feat. (feat, targ)) (features_for cols idx_Y)) =
            collect (\<lambda>feat. pair_value L (frames h df) method (E targ) feat targ) (features_for cols idx_Y)"
    by (simp add: collect_map)
  have inner: "computes ?inner h
      (bind (collect (\<lambda>feat. pair_value L (frames h df) method (E targ) feat targ) (features_for cols idx_Y))
         (\<lambda>rs. return (fst acc @ map snd rs, snd acc @ map fst rs)))"
    using inner_loop_sim [OF Cons.prems(1), of L "method" "E targ" idx_Y targ "enumerate 0 cols" acc]
    by (simp add: features_for_def)
  have step: "computes (outer_loop L df method em cols ys acc') (snd (?inner h))
      (bind (collect ?PV (pairs_from cols ys))
         (\<lambda>rs. return (fst acc' @ map snd rs, snd acc' @ map fst rs)))" for acc'
  proof -
    have e1: "extends h (snd (?inner h))"
      using inner by (simp add: computes_def)
    have lt: "df < next_ref (snd (?inner h))" and fr: "frames (snd (?inner h)) df = frames h df"
      using e1 Cons.prems(1) by (simp_all add: extends_def)
    from Cons.IH [OF lt rest, of acc'] show ?thesis
      by (simp add: fr)
  qed
  have "computes (bind ?inner (\<lambda>acc'. outer_loop L df method em cols ys acc')) h
      (bind (bind (collect (\<lambda>feat. pair_value L (frames h df) method (E targ) feat targ) (features_for cols idx_Y))
               (\<lambda>rs. return (fst acc @ map snd rs, snd acc @ map fst rs)))
         (\<lambda>acc'. bind (collect ?PV (pairs_from cols ys))
            (\<lambda>rs. return (fst acc' @ map snd rs, snd acc' @ map fst rs))))"
    by (rule computes_bind [OF inner]) (rule step)
  then show ?case
    by (simp add: y dict_lookup_Some em pf bind_collect_append c1 bind_assoc)
qed

lemma discover_sim:
  assumes "df < next_ref h"
  shows "computes (discover L df co method rs flag) h (discover_value L (frames h df) co method rs flag)"
proof (cases "method \<in> set known_methods")
  case False
  then show ?thesis
    by (simp add: discover_def discover_value_def assert_def)
next
  case True
  let ?cols = "columns (frames h df)"
  let ?o = "case co of None \<Rightarrow> [] | Some names \<Rightarrow> names"
  let ?PV = "\<lambda>p. pair_value L (frames h df) method (estimator_for ?o rs (snd p)) (fst p) (snd p)"
  let ?run = "outer_loop L df method (estimator_loop ?cols ?o rs Map.empty) ?cols (enumerate 0 ?cols) ([], [])"
  let ?k = "\<lambda>acc. return (if flag then ResultsAndNaNInfo (fst acc) (snd acc) else Results (fst acc))"
  have "snd ` set (enumerate 0 ?cols) = set ?cols"
    by (simp flip: set_map)
  then have pre: "\<forall>t \<in> snd ` set (enumerate 0 ?cols).
      estimator_loop ?cols ?o rs Map.empty t = Some (estimator_for ?o rs t)"
    by (simp add: estimator_loop_lookup)
  have "computes ?run h (bind (collect ?PV (pairs_from ?cols (enumerate 0 ?cols)))
            (\<lambda>rs. return (map snd rs, map fst rs)))"
    using outer_loop_sim [where E = "estimator_for ?o rs" and acc = "([], [])", OF assms pre, of L "method" ?cols]
    by simp
  then have "computes (bind ?run ?k) h
      (bind (bind (collect ?PV (pairs_from ?cols (enumerate 0 ?cols))) (\<lambda>rs. return (map snd rs, map fst rs))) ?k)"
    by (rule computes_bind) simp
  moreover have "discover L df co method rs flag h = bind ?run ?k h"
    using True by (simp add: discover_unfold)
  ultimately show ?thesis
    using True
    by (simp add: computes_def discover_value_def assert_def visited_pairs_def bind_assoc Let_def
        cong del: if_weak_cong)
qed

subsection \<open>The exceptions of a pair\<close>

lemma method_message_text:
  "method_message = ''Expecting method to be one of: ['pearson', 'spearman', 'kendall', 'rf']''"
  by (simp add: method_message_def repr_list_def known_methods_def corr_methods_def)

lemma fst_bind_Inl:
  "fst (bind m f g) = Inl e \<Longrightarrow>
   fst (m g) = Inl e \<or> (\<exists>x. fst (m g) = Inr x \<and> fst (f x (snd (m g))) = Inl e)"
  by (cases "m g"; cases "fst (m g)") (simp_all add: bind_apply)

lemma fst_bind_Inr:
  "fst (bind m f g) = Inr y \<Longrightarrow> \<exists>x. fst (m g) = Inr x \<and> fst (f x (snd (m g))) = Inr y"
  by (cases "m g"; cases "fst (m g)") (simp_all add: bind_apply)

lemma fst_bind_return_Inl: "fst (bind m (\<lambda>x. return (k x)) g) = Inl e \<longleftrightarrow> fst (m g) = Inl e"
  by (cases "m g"; cases "fst (m g)") (simp_all add: bind_apply return_def)

lemma fst_bind_return_Inr:
  "fst (bind m (\<lambda>x. return (k x)) g) = Inr y \<longleftrightarrow> (\<exists>x. fst (m g) = Inr x \<and> y = k x)"
  by (cases "m g"; cases "fst (m g)") (auto simp: bind_apply return_def)

lemma collect_Inl: "fst (collect f xs g) = Inl e \<Longrightarrow> \<exists>x \<in> set xs. \<exists>g'. fst (f x g') = Inl e"
proof (induction xs arbitrary: g)
  case Nil
  then show ?case by (simp add: return_def)
next
  case (Cons x xs)
  from fst_bind_Inl [OF Cons.prems [unfolded collect.simps]]
  show ?case
  proof
    assume "fst (f x g) = Inl e"
    then show ?thesis by auto
  next
    assume "\<exists>r. fst (f x g) = Inr r \<and>
      fst (bind (collect f xs) (\<lambda>rs. return (r # rs)) (snd (f x g))) = Inl e"
    then have "fst (collect f xs (snd (f x g))) = Inl e"
      by (auto simp: fst_bind_return_Inl)
    from Cons.IH [OF this] show ?thesis by auto
  qed
qed

lemma labelencode_frame_assertion:
  "labelencode_frame L cols fr = Inl (AssertionError m) \<Longrightarrow> m = []"
proof (induction cols arbitrary: fr)
  case Nil
  then show ?case by simp
next
  case (Cons col cols)
  then show ?case
    by (auto simp: and_then_def getitem_frame_def called_def drop_frame_def setitem_frame_def Let_def
        split: sum.splits list.splits if_splits)
qed

lemma prepare_value_assertion:
  "prepare_value fr feat targ = Inl (AssertionError m) \<Longrightarrow> m = []"
  by (auto simp: prepare_value_def and_then_def getitem_list_frame_def py_truediv_def Let_def
      split: sum.splits list.splits if_splits)

lemma getitem_list_frame_assertion:
  "getitem_list_frame fr ks = Inl (AssertionError m) \<Longrightarrow> m = []"
  by (auto simp: getitem_list_frame_def split: list.splits if_splits)

lemma getitem_frame_assertion:
  "getitem_frame fr k = Inl (AssertionError m) \<Longrightarrow> m = []"
  by (auto simp: getitem_frame_def Let_def split: list.splits if_splits)

lemma fst_lift [simp]: "fst (lift v g) = v"
  by (simp add: lift_def)

lemma snd_lift [simp]: "snd (lift v g) = g"
  by (simp add: lift_def)

lemma fst_assert_Inl: "fst (assert b msg g) = Inl e \<Longrightarrow> e = AssertionError msg"
  by (cases b) (simp_all add: assert_def return_def raise_def)

lemma fst_call_assertion: "fst (call r g) \<noteq> Inl (AssertionError m)"
  by (cases r) (simp_all add: call_def return_def raise_def)

lemma run_cross_val_score_assertion:
  "fst (run_cross_val_score L est X y k g) \<noteq> Inl (AssertionError m)"
  by (simp add: run_cross_val_score_def split: option.splits prod.splits sum.splits)

lemma score_value_assertion:
  assumes "fst (score_value L fr method est feat targ g) = Inl (AssertionError m)"
  shows "m = []"
proof -
  note a = assms [unfolded score_value_def]
  from fst_bind_Inl [OF a] show ?thesis
  proof (elim disjE exE conjE)
    assume "fst (lift (getitem_list_frame fr [feat]) g) = Inl (AssertionError m)"
    then show ?thesis by (simp add: getitem_list_frame_assertion)
  next
    fix X
    assume "fst (bind (lift (getitem_frame fr targ)) (\<lambda>df_y.
       bind (assert (isnull_sum_sum X = 0) []) (\<lambda>u.
       bind (assert (isnull_sum df_y = 0) []) (\<lambda>u.
       bind (if method = ''rf''
             then bind (run_cross_val_score L est X df_y 3) (\<lambda>scores. return (mean L scores))
             else return (Float 0)) (\<lambda>score.
       if method \<in> set corr_methods
       then bind (lift (getitem_list_frame fr [feat, targ])) (\<lambda>P.
            bind (assert (length (data P) = 2) []) (\<lambda>u.
            call (corr L P method feat targ)))
       else return score))))
       (snd (lift (getitem_list_frame fr [feat]) g))) = Inl (AssertionError m)"
    from fst_bind_Inl [OF this] show ?thesis
    proof (elim disjE exE conjE)
      assume "fst (lift (getitem_frame fr targ) (snd (lift (getitem_list_frame fr [feat]) g))) =
          Inl (AssertionError m)"
      then show ?thesis by (simp add: getitem_frame_assertion)
    next
      fix y g1
      assume "fst ((bind (assert (isnull_sum_sum X = 0) []) (\<lambda>u.
       bind (assert (isnull_sum y = 0) []) (\<lambda>u.
       bind (if method = ''rf''
             then bind (run_cross_val_score L est X y 3) (\<lambda>scores. return (mean L scores))
             else return (Float 0)) (\<lambda>score.
       if method \<in> set corr_methods
       then bind (lift (getitem_list_frame fr [feat, targ])) (\<lambda>P.
            bind (assert (length (data P) = 2) []) (\<lambda>u.
            call (corr L P method feat targ)))
       else return score))))
         (snd (lift (getitem_frame fr targ) (snd (lift (getitem_list_frame fr [feat]) g))))) =
          Inl (AssertionError m)"
      from fst_bind_Inl [OF this] show ?thesis
      proof (elim disjE exE conjE)
        fix u
        assume "fst (assert (isnull_sum_sum X = 0) []
            (snd (lift (getitem_frame fr targ) (snd (lift (getitem_list_frame fr [feat]) g))))) =
            Inl (AssertionError m)"
        from fst_assert_Inl [OF this] show ?thesis by simp
      next
        fix u :: unit
        let ?g2 = "snd (assert (isnull_sum_sum X = 0) []
            (snd (lift (getitem_frame fr targ) (snd (lift (getitem_list_frame fr [feat]) g)))))"
        assume "fst (bind (assert (isnull_sum y = 0) []) (\<lambda>u.
           bind (if method = ''rf''
                 then bind (run_cross_val_score L est X y 3) (\<lambda>scores. return (mean L scores))
                 else return (Float 0)) (\<lambda>score.
           if method \<in> set corr_methods
           then bind (lift (getitem_list_frame fr [feat, targ])) (\<lambda>P.
                bind (assert (length (data P) = 2) []) (\<lambda>u.
                call (corr L P method feat targ)))
           else return score)) ?g2) = Inl (AssertionError m)"
        from fst_bind_Inl [OF this] show ?thesis
        proof (elim disjE exE conjE)
          assume "fst (assert (isnull_sum y = 0) [] ?g2) = Inl (AssertionError m)"
          from fst_assert_Inl [OF this] show ?thesis by simp
        next
          fix u' :: unit
          let ?g3 = "snd (assert (isnull_sum y = 0) [] ?g2)"
          assume "fst (bind (if method = ''rf''
                 then bind (run_cross_val_score L est X y 3) (\<lambda>scores. return (mean L scores))
                 else return (Float 0)) (\<lambda>score.
           if method \<in> set corr_methods
           then bind (lift (getitem_list_frame fr [feat, targ])) (\<lambda>P.
                bind (assert (length (data P) = 2) []) (\<lambda>u.
                call (corr L P method feat targ)))
           else return score) ?g3) = Inl (AssertionError m)"
          from fst_bind_Inl [OF this] show ?thesis
          proof (elim disjE exE conjE)
            assume "fst ((if method = ''rf''
                 then bind (run_cross_val_score L est X y 3) (\<lambda>scores. return (mean L scores))
                 else return (Float 0)) ?g3) = Inl (AssertionError m)"
            then show ?thesis
              using run_cross_val_score_assertion [of L est X y 3 ?g3 m]
              by (cases "method = ''rf''") (simp_all add: fst_bind_return_Inl return_apply)
          next
            fix sc
            let ?g4 = "snd ((if method = ''rf''
                 then bind (run_cross_val_score L est X y 3) (\<lambda>scores. return (mean L scores))
                 else return (Float 0)) ?g3)"
            assume c: "fst ((if method \<in> set corr_methods
               then bind (lift (getitem_list_frame fr [feat, targ])) (\<lambda>P.
                    bind (assert (length (data P) = 2) []) (\<lambda>u.
                    call (corr L P method feat targ)))
               else return sc) ?g4) = Inl (AssertionError m)"
            show ?thesis
            proof (cases "method \<in> set corr_methods")
              case False
              with c show ?thesis by (simp add: return_apply)
            next
              case True
              with c have "fst (bind (lift (getitem_list_frame fr [feat, targ])) (\<lambda>P.
                    bind (assert (length (data P) = 2) []) (\<lambda>u.
                    call (corr L P method feat targ))) ?g4) = Inl (AssertionError m)"
                by simp
              from fst_bind_Inl [OF this] show ?thesis
              proof (elim disjE exE conjE)
                assume "fst (lift (getitem_list_frame fr [feat, targ]) ?g4) = Inl (AssertionError m)"
                then show ?thesis by (simp add: getitem_list_frame_assertion)
              next
                fix P
                assume "fst (bind (assert (length (data P) = 2) []) (\<lambda>u. call (corr L P method feat targ))
                    (snd (lift (getitem_list_frame fr [feat, targ]) ?g4))) = Inl (AssertionError m)"
                from fst_bind_Inl [OF this] show ?thesis
                  by (auto dest: fst_assert_Inl simp: fst_call_assertion)
              qed
            qed
          qed
        qed
      qed
    qed
  qed
qed

lemma pair_value_assertion:
  assumes "fst (pair_value L fr method est feat targ g) = Inl (AssertionError m)"
  shows "m = []"
proof -
  note a = assms [unfolded pair_value_def]
  from fst_bind_Inl [OF a] show ?thesis
  proof (elim disjE exE conjE)
    assume "fst (lift (prepare_value fr feat targ) g) = Inl (AssertionError m)"
    then show ?thesis by (simp add: prepare_value_assertion)
  next
    fix p
    assume "fst (bind (lift (labelencode_frame L (columns (fst p)) (fst p))) (\<lambda>df_ml.
       bind (score_value L df_ml method est feat targ) (\<lambda>score.
       return (snd p, \<lparr>feature = feat, target = targ, score = score\<rparr>)))
       (snd (lift (prepare_value fr feat targ) g))) = Inl (AssertionError m)"
    from fst_bind_Inl [OF this] show ?thesis
      by (auto simp: fst_bind_return_Inl dest: labelencode_frame_assertion score_value_assertion)
  qed
qed

subsection \<open>Frames without rows, and the pairs visited\<close>

lemma length_row_mask: "length (row_mask n cs) \<le> n"
  by (induction cs) auto

lemma row_mask_no_rows [simp]: "row_mask 0 cs = []"
  using length_row_mask [of 0 cs] by simp

lemma prepare_value_no_rows:
  assumes "n_rows fr = 0" and "feat \<in> set (columns fr)" and "targ \<in> set (columns fr)"
  shows "prepare_value fr feat targ = Inl ZeroDivisionError"
  using assms
  by (simp add: prepare_value_def getitem_list_frame_def dropna_frame_def py_truediv_def Let_def)

lemma pair_value_no_rows:
  assumes "n_rows fr = 0" and "feat \<in> set (columns fr)" and "targ \<in> set (columns fr)"
  shows "pair_value L fr method est feat targ = raise ZeroDivisionError"
  by (simp add: pair_value_def prepare_value_no_rows [OF assms])

lemma visited_pairs_first:
  "visited_pairs (c0 # c1 # cs) =
     (c1, c0) # map (\<lambda>feat. (feat, c0)) (map snd (filter (\<lambda>x. fst x \<noteq> 0) (enumerate 2 cs)))
       @ pairs_from (c0 # c1 # cs) (enumerate 1 (c1 # cs))"
  by (simp add: visited_pairs_def pairs_from_def features_for_def numeral_2_eq_2)

lemma visited_pairs_members:
  "p \<in> set (visited_pairs cols) \<Longrightarrow> fst p \<in> set cols \<and> snd p \<in> set cols"
  by (auto simp: visited_pairs_def pairs_from_def features_for_def in_set_enumerate_eq)

lemma collect_cong:
  "(\<And>x. x \<in> set xs \<Longrightarrow> f x = g x) \<Longrightarrow> collect f xs = collect g xs"
  by (induction xs) simp_all

subsection \<open>The rows of a successful call\<close>

lemma prepare_value_keys:
  "prepare_value fr feat targ = Inr p \<Longrightarrow> feature (snd p) = feat \<and> target (snd p) = targ"
  by (auto simp: prepare_value_def and_then_def Let_def split: sum.splits)

lemma pair_value_Inr:
  assumes "fst (pair_value L fr method est feat targ g) = Inr r"
  shows "\<exists>p df_ml sc. prepare_value fr feat targ = Inr p
    \<and> labelencode_frame L (columns (fst p)) (fst p) = Inr df_ml
    \<and> fst (score_value L df_ml method est feat targ g) = Inr sc
    \<and> r = (snd p, \<lparr>feature = feat, target = targ, score = sc\<rparr>)"
proof (cases "prepare_value fr feat targ")
  case (Inl e)
  with assms show ?thesis
    by (simp add: pair_value_def raise_apply)
next
  case (Inr p)
  show ?thesis
  proof (cases "labelencode_frame L (columns (fst p)) (fst p)")
    case (Inl e)
    with assms Inr show ?thesis
      by (simp add: pair_value_def raise_apply)
  next
    case df_ml: (Inr df_ml)
    with assms Inr show ?thesis
      by (simp add: pair_value_def fst_bind_return_Inr)
  qed
qed

lemma pair_value_keys:
  "fst (pair_value L fr method est feat targ g) = Inr r \<Longrightarrow>
   feature (fst r) = feat \<and> target (fst r) = targ \<and> feature (snd r) = feat \<and> target (snd r) = targ"
  by (auto dest!: pair_value_Inr dest: prepare_value_keys)

lemma columns_dropna_frame [simp]: "columns (dropna_frame fr) = columns fr"
  by (simp add: dropna_frame_def columns_def Let_def comp_def)

lemma length_labelled_dropna_frame [simp]:
  "length (labelled (dropna_frame fr) k) = length (labelled fr k)"
  by (simp add: dropna_frame_def labelled_def Let_def filter_map comp_def)

lemma labelled_empty_iff: "labelled fr k = [] \<longleftrightarrow> k \<notin> set (columns fr)"
  by (auto simp: labelled_def columns_def filter_empty_conv)

lemma getitem_frame_repeated:
  "2 \<le> length (labelled fr k) \<Longrightarrow> \<exists>e. getitem_frame fr k = Inl e"
  by (cases "labelled fr k"; cases "tl (labelled fr k)") (auto simp: getitem_frame_def)

lemma labelencode_frame_repeated:
  assumes "2 \<le> length (labelled fr k)" and "cols = k # ks"
  shows "\<exists>e. labelencode_frame L cols fr = Inl e"
  using getitem_frame_repeated [OF assms(1)] by (auto simp: assms(2))

lemma getitem_list_frame_twice:
  "getitem_list_frame fr [k, k] =
     (if k \<in> set (columns fr)
      then Inr \<lparr>n_rows = n_rows fr, data = labelled fr k @ labelled fr k\<rparr>
      else Inl (KeyError k))"
  by (simp add: getitem_list_frame_def)

lemma prepare_value_frame:
  "prepare_value fr feat targ = Inr p \<Longrightarrow>
   \<exists>sel. getitem_list_frame fr [feat, targ] = Inr sel \<and> fst p = dropna_frame sel"
proof (cases "getitem_list_frame fr [feat, targ]")
  case (Inl e)
  moreover assume "prepare_value fr feat targ = Inr p"
  ultimately show ?thesis by (simp add: prepare_value_def)
next
  case (Inr sel)
  moreover assume "prepare_value fr feat targ = Inr p"
  ultimately show ?thesis
    by (cases "py_truediv (int (n_rows sel) - int (n_rows (dropna_frame sel))) (int (n_rows sel))")
       (auto simp: prepare_value_def Let_def)
qed

lemma pair_value_same_label:
  "\<exists>e. fst (pair_value L fr method est k k g) = Inl e"
proof (cases "prepare_value fr k k")
  case (Inl e)
  then show ?thesis by (simp add: pair_value_def raise_apply)
next
  case (Inr p)
  let ?sel = "\<lparr>n_rows = n_rows fr, data = labelled fr k @ labelled fr k\<rparr>"
  from prepare_value_frame [OF Inr]
  have k: "k \<in> set (columns fr)" and p: "fst p = dropna_frame ?sel"
    by (simp_all add: getitem_list_frame_twice split: if_splits)
  have l: "labelled ?sel k = labelled fr k @ labelled fr k"
    by (simp add: labelled_def)
  from k have "labelled fr k \<noteq> []"
    by (simp add: labelled_empty_iff)
  then obtain c cs where c: "labelled fr k = c # cs"
    by (cases "labelled fr k") auto
  then have "c \<in> set (labelled fr k)"
    by simp
  then have "fst c = k"
    by (simp add: labelled_def)
  moreover have "columns (fst p) = columns ?sel"
    by (simp add: p)
  ultimately have cols: "columns (fst p) = k # map fst (cs @ labelled fr k)"
    using c by (simp add: columns_def)
  have "length (labelled (fst p) k) = length (labelled ?sel k)"
    by (simp add: p)
  then have "2 \<le> length (labelled (fst p) k)"
    unfolding l by (simp add: c)
  from labelencode_frame_repeated [OF this cols, of L] obtain e
    where "labelencode_frame L (columns (fst p)) (fst p) = Inl e" ..
  with Inr show ?thesis
    by (simp add: pair_value_def raise_apply)
qed

lemma collect_Cons_Inr:
  assumes "fst (collect f (p # ps) g) = Inr rs"
  shows "\<exists>r rs'. fst (f p g) = Inr r \<and> fst (collect f ps (snd (f p g))) = Inr rs' \<and> rs = r # rs'"
proof -
  from fst_bind_Inr [OF assms [unfolded collect.simps]] obtain r
    where "fst (f p g) = Inr r"
      and "fst (bind (collect f ps) (\<lambda>rs. return (r # rs)) (snd (f p g))) = Inr rs"
    by auto
  then show ?thesis
    by (auto simp: fst_bind_return_Inr)
qed

lemma collect_Inr:
  "fst (collect f ps g) = Inr rs \<Longrightarrow> list_all2 (\<lambda>p r. \<exists>g'. fst (f p g') = Inr r) ps rs"
proof (induction ps arbitrary: rs g)
  case Nil
  then show ?case by (simp add: return_apply)
next
  case (Cons p ps)
  from collect_Cons_Inr [OF Cons.prems] obtain r rs'
    where r: "fst (f p g) = Inr r" and rs': "fst (collect f ps (snd (f p g))) = Inr rs'"
      and rs: "rs = r # rs'"
    by auto
  from Cons.IH [OF rs'] r show ?case
    unfolding rs by auto
qed

lemma collect_Inr_member:
  assumes "fst (collect f ps g) = Inr rs" and "p \<in> set ps"
  shows "\<exists>r g'. fst (f p g') = Inr r"
proof -
  from assms(2) obtain i where i: "i < length ps" "ps ! i = p"
    by (auto simp: in_set_conv_nth)
  from collect_Inr [OF assms(1)]
  have "\<forall>i < length ps. \<exists>g'. fst (f (ps ! i) g') = Inr (rs ! i)"
    by (simp add: list_all2_conv_all_nth)
  with i show ?thesis
    by blast
qed

lemma in_features_for:
  "feat \<in> set (features_for cols j) \<longleftrightarrow> (\<exists>i < length cols. i \<noteq> j \<and> feat = cols ! i)"
proof
  assume "feat \<in> set (features_for cols j)"
  then obtain i c where "(i, c) \<in> set (enumerate 0 cols)" "i \<noteq> j" "feat = c"
    by (auto simp: features_for_def)
  then show "\<exists>i < length cols. i \<noteq> j \<and> feat = cols ! i"
    by (auto simp: in_set_enumerate_eq)
next
  assume "\<exists>i < length cols. i \<noteq> j \<and> feat = cols ! i"
  then obtain i where i: "i < length cols" "i \<noteq> j" "feat = cols ! i"
    by blast
  then have "(i, feat) \<in> set (filter (\<lambda>x. fst x \<noteq> j) (enumerate 0 cols))"
    by (simp add: in_set_enumerate_eq)
  then have "snd (i, feat) \<in> snd ` set (filter (\<lambda>x. fst x \<noteq> j) (enumerate 0 cols))"
    by (rule imageI)
  then show "feat \<in> set (features_for cols j)"
    by (simp add: features_for_def)
qed

lemma in_pairs_from:
  "(feat, targ) \<in> set (pairs_from cols ys) \<longleftrightarrow>
   (\<exists>j. (j, targ) \<in> set ys \<and> feat \<in> set (features_for cols j))"
proof
  assume "(feat, targ) \<in> set (pairs_from cols ys)"
  then obtain y where "y \<in> set ys" "feat \<in> set (features_for cols (fst y))" "targ = snd y"
    by (auto simp: pairs_from_def)
  then have "(fst y, targ) \<in> set ys \<and> feat \<in> set (features_for cols (fst y))"
    by simp
  then show "\<exists>j. (j, targ) \<in> set ys \<and> feat \<in> set (features_for cols j)" ..
next
  assume "\<exists>j. (j, targ) \<in> set ys \<and> feat \<in> set (features_for cols j)"
  then obtain j where j: "(j, targ) \<in> set ys" "feat \<in> set (features_for cols j)"
    by auto
  then show "(feat, targ) \<in> set (pairs_from cols ys)"
    by (auto simp: pairs_from_def intro!: bexI [of _ "(j, targ)"])
qed

lemma in_visited_pairs:
  "(feat, targ) \<in> set (visited_pairs cols) \<longleftrightarrow>
   (\<exists>i j. i < length cols \<and> j < length cols \<and> i \<noteq> j \<and> feat = cols ! i \<and> targ = cols ! j)"
proof
  assume "(feat, targ) \<in> set (visited_pairs cols)"
  then obtain j where j: "(j, targ) \<in> set (enumerate 0 cols)" and f: "feat \<in> set (features_for cols j)"
    unfolding visited_pairs_def in_pairs_from by auto
  from j have "j < length cols" "targ = cols ! j"
    by (simp_all add: in_set_enumerate_eq)
  moreover from f obtain i where "i < length cols" "i \<noteq> j" "feat = cols ! i"
    unfolding in_features_for by auto
  ultimately show "\<exists>i j. i < length cols \<and> j < length cols \<and> i \<noteq> j \<and> feat = cols ! i \<and> targ = cols ! j"
    by auto
next
  assume "\<exists>i j. i < length cols \<and> j < length cols \<and> i \<noteq> j \<and> feat = cols ! i \<and> targ = cols ! j"
  then obtain i j where ij: "i < length cols" "j < length cols" "i \<noteq> j" "feat = cols ! i" "targ = cols ! j"
    by auto
  then have "(j, targ) \<in> set (enumerate 0 cols)"
    by (simp add: in_set_enumerate_eq)
  moreover from ij have "feat \<in> set (features_for cols j)"
    unfolding in_features_for by auto
  ultimately show "(feat, targ) \<in> set (visited_pairs cols)"
    unfolding visited_pairs_def in_pairs_from by auto
qed

lemma repeated_label_visited:
  assumes "\<not> distinct cols"
  shows "\<exists>k. (k, k) \<in> set (visited_pairs cols)"
proof -
  from assms obtain i j where "i < length cols" "j < length cols" "i \<noteq> j" "cols ! i = cols ! j"
    by (auto simp: distinct_conv_nth)
  then have "\<exists>i' j'. i' < length cols \<and> j' < length cols \<and> i' \<noteq> j' \<and> cols ! i = cols ! i' \<and> cols ! i = cols ! j'"
    by (intro exI [of _ i] exI [of _ j]) simp
  then have "(cols ! i, cols ! i) \<in> set (visited_pairs cols)"
    unfolding in_visited_pairs .
  then show ?thesis ..
qed

lemma map_snd_filter_enumerate:
  "map snd (filter (\<lambda>x. P (snd x)) (enumerate n xs)) = filter P xs"
  by (induction xs arbitrary: n) simp_all

lemma features_for_distinct:
  assumes "distinct cols" and "idx_Y < length cols"
  shows "features_for cols idx_Y = filter (\<lambda>feat. feat \<noteq> cols ! idx_Y) cols"
proof -
  have "filter (\<lambda>x. fst x \<noteq> idx_Y) (enumerate 0 cols) =
        filter (\<lambda>x. snd x \<noteq> cols ! idx_Y) (enumerate 0 cols)"
    using assms by (intro filter_cong) (auto simp: in_set_enumerate_eq nth_eq_iff_index_eq)
  then show ?thesis
    by (simp add: features_for_def map_snd_filter_enumerate [of "\<lambda>c. c \<noteq> cols ! idx_Y" 0 cols])
qed

lemma map_over_enumerate: "map (\<lambda>y. G (snd y)) (enumerate n xs) = map G xs"
  by (induction xs arbitrary: n) simp_all

lemma concat_map_if:
  "concat (map (\<lambda>x. if P x then [g x] else []) xs) = map g (filter P xs)"
  by (induction xs) simp_all

lemma visited_pairs_distinct:
  assumes "distinct cols"
  shows "visited_pairs cols = [(feat, targ). targ \<leftarrow> cols, feat \<leftarrow> cols, feat \<noteq> targ]"
proof -
  have "visited_pairs cols =
        concat (map (\<lambda>y. map (\<lambda>feat. (feat, snd y)) (filter (\<lambda>feat. feat \<noteq> snd y) cols)) (enumerate 0 cols))"
    unfolding visited_pairs_def pairs_from_def
    by (intro arg_cong [where f = concat] map_cong refl)
       (auto simp: in_set_enumerate_eq features_for_distinct [OF assms])
  also have "\<dots> = concat (map (\<lambda>targ. map (\<lambda>feat. (feat, targ)) (filter (\<lambda>feat. feat \<noteq> targ) cols)) cols)"
    by (simp only: map_over_enumerate [of "\<lambda>targ. map (\<lambda>feat. (feat, targ)) (filter (\<lambda>feat. feat \<noteq> targ) cols)" 0 cols])
  finally show ?thesis
    by (simp add: concat_map_if)
qed

lemma length_concat_const:
  "(\<And>x. x \<in> set xs \<Longrightarrow> length (F x) = k) \<Longrightarrow> length (concat (map F xs)) = length xs * k"
  by (induction xs) simp_all

lemma length_filter_other:
  assumes "distinct cols" and "targ \<in> set cols"
  shows "length (filter (\<lambda>feat. feat \<noteq> targ) cols) = length cols - 1"
proof -
  have "filter (\<lambda>feat. feat \<noteq> targ) cols = removeAll targ cols"
    by (induction cols) auto
  with assms show ?thesis
    by (simp add: distinct_remove1_removeAll [symmetric] length_remove1)
qed

lemma length_visited_pairs:
  assumes "distinct cols"
  shows "length (visited_pairs cols) = length cols * (length cols - 1)"
  unfolding visited_pairs_distinct [OF assms]
  by (simp add: concat_map_if length_concat_const length_filter_other [OF assms])

lemma visited_pairs_product:
  assumes "distinct cols"
  shows "visited_pairs cols = map prod.swap (filter (\<lambda>p. snd p \<noteq> fst p) (List.product cols cols))"
  unfolding visited_pairs_distinct [OF assms]
  by (simp add: product_concat_map concat_map_if filter_concat map_concat comp_def filter_map)

lemma distinct_visited_pairs:
  assumes "distinct cols"
  shows "distinct (visited_pairs cols)"
  unfolding visited_pairs_product [OF assms]
  using assms by (simp add: distinct_map distinct_product)

lemma discover_success:
  assumes "df < next_ref h"
    and "fst (discover L df co method rs flag h) = Inr res"
  shows "\<exists>prs. fst (collect (\<lambda>p. pair_value L (frames h df) method
                (estimator_for (case co of None \<Rightarrow> [] | Some names \<Rightarrow> names) rs (snd p)) (fst p) (snd p))
              (visited_pairs (columns (frames h df))) (generator h)) = Inr prs
           \<and> res = (if flag then ResultsAndNaNInfo (map snd prs) (map fst prs) else Results (map snd prs))
           \<and> method \<in> set known_methods"
proof -
  from discover_sim [OF assms(1), of L co "method" rs flag] assms(2)
  have v: "fst (discover_value L (frames h df) co method rs flag (generator h)) = Inr res"
    by (simp add: computes_def)
  show ?thesis
  proof (cases "method \<in> set known_methods")
    case False
    with v show ?thesis
      by (simp add: discover_value_def assert_def raise_apply)
  next
    case True
    with v show ?thesis
      by (simp add: discover_value_def assert_def Let_def fst_bind_return_Inr)
  qed
qed

lemma collected_keys:
  assumes "list_all2 (\<lambda>p r. \<exists>g. fst (pair_value L fr method (E p) (fst p) (snd p) g) = Inr r) ps prs"
  shows "map (\<lambda>d. (feature d, target d)) (map snd prs) = ps"
    and "map (\<lambda>n. (feature n, target n)) (map fst prs) = ps"
  using assms by (induction rule: list_all2_induct) (auto dest: pair_value_keys)

lemma discover_value_run:
  assumes "df < next_ref h" and "frames h df = fr" and "generator h = g"
    and "fst (discover_value L fr co method rs flag g) = v"
  shows "fst (discover L df co method rs flag h) = v"
  using discover_sim [OF assms(1), of L co "method" rs flag] assms(2-4) by (simp add: computes_def)

subsection \<open>The record of one pair\<close>

lemma distinct_columns_of_success:
  assumes "fst (collect (\<lambda>p. pair_value L fr method (E p) (fst p) (snd p)) (visited_pairs (columns fr)) g) = Inr prs"
  shows "distinct (columns fr)"
proof (rule ccontr)
  assume "\<not> distinct (columns fr)"
  then obtain k where "(k, k) \<in> set (visited_pairs (columns fr))"
    by (auto dest: repeated_label_visited)
  from collect_Inr_member [OF assms this] obtain r g'
    where "fst (pair_value L fr method (E (k, k)) k k g') = Inr r"
    by auto
  with pair_value_same_label [of L fr "method" "E (k, k)" k g'] show False
    by auto
qed

lemma collect_filter_key:
  assumes "fst (collect f ps g) = Inr rs" and "distinct ps" and "p \<in> set ps"
    and "\<And>q r g. fst (f q g) = Inr r \<Longrightarrow> K r = q"
  shows "\<exists>r g'. fst (f p g') = Inr r \<and> filter (\<lambda>r. K r = p) rs = [r]"
  using assms(1-3)
proof (induction ps arbitrary: rs g)
  case Nil
  then show ?case by simp
next
  case (Cons q ps)
  from collect_Cons_Inr [OF Cons.prems(1)] obtain r0 rs'
    where r0: "fst (f q g) = Inr r0" and rs': "fst (collect f ps (snd (f q g))) = Inr rs'"
      and rs: "rs = r0 # rs'"
    by auto
  have keys: "map K rs' = ps"
    using collect_Inr [OF rs'] by (induction rule: list_all2_induct) (auto dest: assms(4))
  show ?case
  proof (cases "p = q")
    case True
    with Cons.prems(2) have "p \<notin> set (map K rs')"
      by (simp add: keys)
    then have "filter (\<lambda>r. K r = p) rs' = []"
      by (auto simp: filter_empty_conv)
    with True r0 assms(4) [OF r0] show ?thesis
      by (auto simp: rs)
  next
    case False
    with Cons.prems have "\<exists>r g'. fst (f p g') = Inr r \<and> filter (\<lambda>r. K r = p) rs' = [r]"
      by (intro Cons.IH [OF rs']) auto
    with False assms(4) [OF r0] show ?thesis
      by (auto simp: rs)
  qed
qed

lemma discover_pair_record:
  assumes "df < next_ref h"
    and "fst (discover L df co method rs True h) = Inr (ResultsAndNaNInfo ds ns)"
    and "feat \<in> set (columns (frames h df))" and "targ \<in> set (columns (frames h df))"
    and "feat \<noteq> targ"
  shows "\<exists>r g. fst (pair_value L (frames h df) method
              (estimator_for (case co of None \<Rightarrow> [] | Some names \<Rightarrow> names) rs targ) feat targ g) = Inr r
          \<and> filter (\<lambda>n. feature n = feat \<and> target n = targ) ns = [fst r]
          \<and> filter (\<lambda>d. feature d = feat \<and> target d = targ) ds = [snd r]
          \<and> distinct (columns (frames h df))"
proof -
  let ?cols = "columns (frames h df)"
  let ?E = "\<lambda>p. estimator_for (case co of None \<Rightarrow> [] | Some names \<Rightarrow> names) rs (snd p)"
  let ?PV = "\<lambda>p. pair_value L (frames h df) method (?E p) (fst p) (snd p)"
  let ?K = "\<lambda>r. (feature (fst r), target (fst r))"
  from discover_success [OF assms(1,2)] obtain prs
    where c: "fst (collect ?PV (visited_pairs ?cols) (generator h)) = Inr prs"
      and ds: "ds = map snd prs" and ns: "ns = map fst prs"
    by auto
  have d: "distinct ?cols"
    by (rule distinct_columns_of_success [OF c])
  have m: "(feat, targ) \<in> set (visited_pairs ?cols)"
    using assms(3-5) unfolding visited_pairs_product [OF d] by auto
  have k: "?K r = q" if "fst (?PV q g) = Inr r" for q r g
    using pair_value_keys [OF that] by (cases q) simp
  have "\<exists>r g'. fst (?PV (feat, targ) g') = Inr r \<and> filter (\<lambda>r. ?K r = (feat, targ)) prs = [r]"
    by (rule collect_filter_key [where f = ?PV and K = ?K, OF c distinct_visited_pairs [OF d] m])
       (erule k)
  then obtain r g' where r: "fst (?PV (feat, targ) g') = Inr r"
    and f: "filter (\<lambda>r. ?K r = (feat, targ)) prs = [r]"
    by auto
  have same: "(feature (snd x) = feat \<and> target (snd x) = targ) = (?K x = (feat, targ))"
    if "x \<in> set prs" for x
  proof -
    from that collect_Inr [OF c] obtain q g'' where "fst (?PV q g'') = Inr x"
      by (auto simp: list_all2_conv_all_nth in_set_conv_nth)
    from pair_value_keys [OF this] show ?thesis
      by (cases q) simp
  qed
  have "filter (\<lambda>n. feature n = feat \<and> target n = targ) ns = map fst (filter (\<lambda>r. ?K r = (feat, targ)) prs)"
    by (simp add: ns filter_map comp_def)
  moreover have "filter (\<lambda>d. feature d = feat \<and> target d = targ) ds =
      map snd (filter (\<lambda>r. ?K r = (feat, targ)) prs)"
    unfolding ds filter_map comp_def
    by (intro arg_cong [where f = "map snd"] filter_cong refl same)
  ultimately show ?thesis
    using r f d by auto
qed


lemma filter_label_map_of:
  "distinct (map fst xs) \<Longrightarrow> map_of xs k = Some s \<Longrightarrow> filter (\<lambda>c. fst c = k) xs = [(k, s)]"
proof (induction xs)
  case Nil
  then show ?case by simp
next
  case (Cons x xs)
  show ?case
  proof (cases "fst x = k")
    case True
    with Cons.prems have "x = (k, s)" and "k \<notin> fst ` set xs"
      by (cases x; simp)+
    then show ?thesis
      by (auto simp: filter_empty_conv)
  next
    case False
    with Cons show ?thesis
      by (cases x) auto
  qed
qed

lemma labelled_map_of:
  "distinct (columns fr) \<Longrightarrow> map_of (data fr) k = Some s \<Longrightarrow> labelled fr k = [(k, s)]"
  unfolding columns_def labelled_def by (rule filter_label_map_of)

lemma map_of_in_columns: "map_of (data fr) k = Some s \<Longrightarrow> k \<in> set (columns fr)"
  using map_of_SomeD [of "data fr" k s] by (force simp: columns_def)

lemma wf_dataframe_length:
  "wf_dataframe fr \<Longrightarrow> map_of (data fr) k = Some s \<Longrightarrow> length (cells s) = n_rows fr"
  using map_of_SomeD [of "data fr" k s] by (force simp: wf_dataframe_def list_all_iff)

lemma row_mask_two_same_length:
  "length xs = length ys \<Longrightarrow>
   row_mask (length ys) [xs, ys] = map (\<lambda>(x, y). \<not> isnull x \<and> \<not> isnull y) (zip xs ys)"
  by (induction xs ys rule: list_induct2) simp_all

lemma row_mask_two:
  assumes "length xs = n" and "length ys = n"
  shows "row_mask n [xs, ys] = map (\<lambda>(x, y). \<not> isnull x \<and> \<not> isnull y) (zip xs ys)"
  using row_mask_two_same_length [of xs ys] assms by simp

lemma count_kept_rows:
  "int (length zs) - int (length (filter id (map P zs))) = int (length (filter (\<lambda>z. \<not> P z) zs))"
proof -
  have "length (filter id (map P zs)) = length (filter P zs)"
    by (simp add: filter_map comp_def)
  moreover have "length (filter P zs) + length (filter (\<lambda>z. \<not> P z) zs) = length zs"
    by (rule sum_length_filter_compl)
  ultimately show ?thesis
    by linarith
qed

lemma count_null_rows_one_sided:
  "length xs = length ys \<Longrightarrow> filter isnull ys = [] \<Longrightarrow>
   length (filter (\<lambda>(x, y). isnull x \<or> isnull y) (zip xs ys)) = length (filter isnull xs)"
  by (induction xs ys rule: list_induct2) (auto split: if_splits)

lemma prepare_value_nan_info:
  assumes "distinct (columns fr)" and "wf_dataframe fr"
    and "map_of (data fr) feat = Some a" and "map_of (data fr) targ = Some b"
    and "prepare_value fr feat targ = Inr p"
  shows "snd p = \<lparr>feature = feat, target = targ,
      n_dropped_na = int (length (filter (\<lambda>(x, y). isnull x \<or> isnull y) (zip (cells a) (cells b)))),
      pct_dropped_na = Float (real (length (filter (\<lambda>(x, y). isnull x \<or> isnull y) (zip (cells a) (cells b))))
                              / real (n_rows fr))\<rparr>"
proof -
  let ?zs = "zip (cells a) (cells b)"
  let ?sel = "\<lparr>n_rows = n_rows fr, data = [(feat, a), (targ, b)]\<rparr>"
  have la: "length (cells a) = n_rows fr" and lb: "length (cells b) = n_rows fr"
    using assms(2-4) by (simp_all add: wf_dataframe_length)
  have sel: "getitem_list_frame fr [feat, targ] = Inr ?sel"
    using assms(1,3,4) by (simp add: getitem_list_frame_def labelled_map_of map_of_in_columns)
  have lz: "length ?zs = n_rows fr"
    by (simp add: la lb)
  have kept: "n_rows (dropna_frame ?sel) = length (filter id (map (\<lambda>(x, y). \<not> isnull x \<and> \<not> isnull y) ?zs))"
    using row_mask_two [OF la lb] by (simp add: dropna_frame_def Let_def)
  have n: "int (n_rows ?sel) - int (n_rows (dropna_frame ?sel)) =
           int (length (filter (\<lambda>(x, y). isnull x \<or> isnull y) ?zs))"
    unfolding kept using count_kept_rows [of ?zs "\<lambda>(x, y). \<not> isnull x \<and> \<not> isnull y"]
    by (simp add: la lb case_prod_unfold)
  from assms(5) show ?thesis
    unfolding prepare_value_def sel and_then_Inr Let_def n
    by (auto simp: py_truediv_def split: if_splits)
qed

lemma pair_value_prepared:
  "fst (pair_value L fr method est feat targ g) = Inr r \<Longrightarrow>
   \<exists>p. prepare_value fr feat targ = Inr p \<and> fst r = snd p"
  by (auto dest!: pair_value_Inr)


subsection \<open>Programs that do not draw from the generator\<close>






lemma random_state_of_estimator_for [simp]: "random_state_of (estimator_for co rs c) = rs"
  by (simp add: estimator_for_def)






section \<open>The claims\<close>

text \<open>
  C5. For every dataset, overrides, method and seed, the score table returned with
  \<^verbatim>\<open>include_na_information=True\<close> is the score table returned with
  \<^verbatim>\<open>include_na_information=False\<close>: both calls take the same course (the same exception
  when one is raised, the same store afterwards); the flag only decides whether the table of
  dropped rows is returned with it.
\<close>

theorem na_flag_only_selects_return:
  "map_sum id results_of (fst (discover L df co method rs True h)) =
     map_sum id results_of (fst (discover L df co method rs False h))
   \<and> snd (discover L df co method rs True h) = snd (discover L df co method rs False h)
   \<and> map_sum id has_nan_info (fst (discover L df co method rs True h)) =
       map_sum id (\<lambda>r. True) (fst (discover L df co method rs True h))
   \<and> map_sum id has_nan_info (fst (discover L df co method rs False h)) =
       map_sum id (\<lambda>r. False) (fst (discover L df co method rs False h))"
proof -
  let ?body = "\<lambda>cols. outer_loop L df method
      (estimator_loop cols (case co of None \<Rightarrow> [] | Some names \<Rightarrow> names) rs Map.empty)
      cols (enumerate 0 cols) ([], [])"
  have d: "discover L df co method rs flag h =
      (case assert (method \<in> set known_methods) method_message h of
         (Inl e, h') \<Rightarrow> (Inl e, h')
       | (Inr u, h') \<Rightarrow> (case get_columns df h' of
            (Inl e, h'') \<Rightarrow> (Inl e, h'')
          | (Inr cols, h'') \<Rightarrow>
              (map_sum id (\<lambda>acc. if flag then ResultsAndNaNInfo (fst acc) (snd acc) else Results (fst acc))
                 (fst (?body cols h'')), snd (?body cols h''))))" for flag
    unfolding discover_def Let_def
    by (simp add: bind_apply return_def split: prod.splits sum.splits)
  show ?thesis
    unfolding d by (simp split: prod.splits sum.splits add: sum.map_comp comp_def)
qed

text \<open>
  C7. Names in \<^verbatim>\<open>classifier_overrides\<close> that are not column labels of the dataset have no
  effect: the call with the overrides as given and the call with the overrides restricted to
  the dataset's labels have the same outcome (the same table or the same exception) and leave
  the same store. Nothing is raised for the names left out.
\<close>

theorem foreign_override_names_ignored:
  "discover L df (Some co) method rs flag h =
   discover L df (Some (filter (\<lambda>c. c \<in> set (columns (frames h df))) co)) method rs flag h"
proof -
  have "estimator_loop (columns (frames h df)) co rs Map.empty =
        estimator_loop (columns (frames h df)) (filter (\<lambda>c. c \<in> set (columns (frames h df))) co) rs Map.empty"
    by (rule estimator_loop_overrides_cong) simp
  then show ?thesis
    by (simp add: discover_unfold)
qed

text \<open>
  C10. For a correlation method (pearson, spearman, kendall) the outcome of \<^verbatim>\<open>discover\<close>
  does not depend on \<^verbatim>\<open>random_state\<close> or on \<^verbatim>\<open>classifier_overrides\<close>: two calls on the same
  dataset that differ only in these arguments return the same tables. The estimators are
  constructed and looked up, and never passed to a scoring routine.
\<close>

theorem correlation_ignores_seed_and_overrides:
  assumes "method \<in> set corr_methods"
  shows "discover L df co1 method rs1 flag h = discover L df co2 method rs2 flag h"
proof -
  have m: "method \<noteq> ''rf''"
    using assms by (auto simp: corr_methods_def)
  let ?o1 = "case co1 of None \<Rightarrow> [] | Some names \<Rightarrow> names"
  let ?o2 = "case co2 of None \<Rightarrow> [] | Some names \<Rightarrow> names"
  have "outer_loop L df method (estimator_loop cols ?o1 rs1 Map.empty) cols (enumerate 0 cols) acc =
        outer_loop L df method (estimator_loop cols ?o2 rs2 Map.empty) cols (enumerate 0 cols) acc"
    for cols acc
    by (rule outer_loop_without_rf [OF m]) (auto simp: estimator_loop_lookup in_set_enumerate_eq)
  then show ?thesis
    by (simp add: discover_unfold)
qed

theorem correlation_ignores_seed_and_overrides_witness:
  "''kendall'' \<in> set corr_methods
   \<and> discover example_lib 0 None ''kendall'' None True example_store =
       discover example_lib 0 (Some [''b'']) ''kendall'' (Some 42) True example_store
   \<and> fst (discover example_lib 0 (Some [''b'']) ''kendall'' (Some 42) True example_store) =
       Inr (ResultsAndNaNInfo
         [\<lparr>feature = ''b'', target = ''a'', score = Float 2\<rparr>,
          \<lparr>feature = ''a'', target = ''b'', score = Float 2\<rparr>]
         [\<lparr>feature = ''b'', target = ''a'', n_dropped_na = 1, pct_dropped_na = Float (1 / 3)\<rparr>,
          \<lparr>feature = ''a'', target = ''b'', n_dropped_na = 1, pct_dropped_na = Float (1 / 3)\<rparr>])"
proof -
  have m: "''kendall'' \<in> set corr_methods"
    by (simp add: corr_methods_def)
  have v: "fst (discover example_lib 0 (Some [''b'']) ''kendall'' (Some 42) True example_store) =
       Inr (ResultsAndNaNInfo
         [\<lparr>feature = ''b'', target = ''a'', score = Float 2\<rparr>,
          \<lparr>feature = ''a'', target = ''b'', score = Float 2\<rparr>]
         [\<lparr>feature = ''b'', target = ''a'', n_dropped_na = 1, pct_dropped_na = Float (1 / 3)\<rparr>,
          \<lparr>feature = ''a'', target = ''b'', n_dropped_na = 1, pct_dropped_na = Float (1 / 3)\<rparr>])"
    by code_simp
  from m v correlation_ignores_seed_and_overrides [OF m, of example_lib 0 None None True example_store "Some [''b'']" "Some 42"]
  show ?thesis by simp
qed

text \<open>
  C2. A method outside pearson, spearman, kendall and rf fails at once: the outcome is the
  assertion error whose message lists the four supported methods, whatever the dataset and
  the library do, and the store is the one the call was given (no frame was selected, no
  pair prepared, nothing returned). For a method among the four, called on an existing
  dataset, the outcome is never that error: the check passes.
\<close>

theorem unknown_method_rejected_first:
  "(method \<notin> set known_methods \<longrightarrow>
      discover L df co method rs flag h =
        (Inl (AssertionError ''Expecting method to be one of: ['pearson', 'spearman', 'kendall', 'rf']''), h))
   \<and> (method \<in> set known_methods \<and> df < next_ref h \<longrightarrow>
      fst (discover L df co method rs flag h) \<noteq>
        Inl (AssertionError ''Expecting method to be one of: ['pearson', 'spearman', 'kendall', 'rf']''))
   \<and> set known_methods = {''pearson'', ''spearman'', ''kendall'', ''rf''}"
proof (intro conjI impI)
  assume "method \<notin> set known_methods"
  then show "discover L df co method rs flag h =
        (Inl (AssertionError ''Expecting method to be one of: ['pearson', 'spearman', 'kendall', 'rf']''), h)"
    by (simp add: discover_unfold flip: method_message_text)
next
  assume a: "method \<in> set known_methods \<and> df < next_ref h"
  let ?o = "case co of None \<Rightarrow> [] | Some names \<Rightarrow> names"
  let ?PV = "\<lambda>p. pair_value L (frames h df) method (estimator_for ?o rs (snd p)) (fst p) (snd p)"
  have ne: "method_message \<noteq> []"
    by (simp add: method_message_text)
  have "fst (discover L df co method rs flag h) \<noteq> Inl (AssertionError method_message)"
  proof
    assume "fst (discover L df co method rs flag h) = Inl (AssertionError method_message)"
    with a discover_sim [of df h L co "method" rs flag]
    have "fst (discover_value L (frames h df) co method rs flag (generator h)) =
        Inl (AssertionError method_message)"
      by (simp add: computes_def)
    with a have "fst (collect ?PV (visited_pairs (columns (frames h df))) (generator h)) =
        Inl (AssertionError method_message)"
      by (simp add: discover_value_def assert_def Let_def fst_bind_return_Inl)
    from collect_Inl [OF this] obtain p g where "fst (?PV p g) = Inl (AssertionError method_message)"
      by auto
    from pair_value_assertion [OF this] ne show False
      by simp
  qed
  then show "fst (discover L df co method rs flag h) \<noteq>
        Inl (AssertionError ''Expecting method to be one of: ['pearson', 'spearman', 'kendall', 'rf']'')"
    by (simp add: method_message_text)
next
  show "set known_methods = {''pearson'', ''spearman'', ''kendall'', ''rf''}"
    by (simp add: known_methods_def corr_methods_def)
qed

theorem unknown_method_rejected_first_witness:
  "''tree'' \<notin> set known_methods
   \<and> discover example_lib 0 None ''tree'' None False example_store =
        (Inl (AssertionError ''Expecting method to be one of: ['pearson', 'spearman', 'kendall', 'rf']''),
         example_store)
   \<and> ''rf'' \<in> set known_methods \<and> 0 < next_ref example_store
   \<and> fst (discover example_lib 0 None ''rf'' None False example_store) \<noteq>
        Inl (AssertionError ''Expecting method to be one of: ['pearson', 'spearman', 'kendall', 'rf']'')
   \<and> fst (discover example_lib 0 None ''rf'' None False example_store) =
        Inr (Results [\<lparr>feature = ''b'', target = ''a'', score = Float 2\<rparr>,
                      \<lparr>feature = ''a'', target = ''b'', score = Float 5\<rparr>])"
proof -
  have a: "''tree'' \<notin> set known_methods" and b: "''rf'' \<in> set known_methods"
    by (simp_all add: known_methods_def corr_methods_def)
  have c: "0 < next_ref example_store"
    by (simp add: example_store_def)
  have v: "fst (discover example_lib 0 None ''rf'' None False example_store) =
        Inr (Results [\<lparr>feature = ''b'', target = ''a'', score = Float 2\<rparr>,
                      \<lparr>feature = ''a'', target = ''b'', score = Float 5\<rparr>])"
    by (rule discover_value_run [OF c, where fr = example_frame and g = "Generator 0"])
       (simp add: example_store_def, simp add: example_store_def, code_simp)
  from a unknown_method_rejected_first [of "''tree''" example_lib 0 None None False example_store]
  have 1: "discover example_lib 0 None ''tree'' None False example_store =
        (Inl (AssertionError ''Expecting method to be one of: ['pearson', 'spearman', 'kendall', 'rf']''),
         example_store)"
    by blast
  from b c unknown_method_rejected_first [of "''rf''" example_lib 0 None None False example_store]
  have 2: "fst (discover example_lib 0 None ''rf'' None False example_store) \<noteq>
        Inl (AssertionError ''Expecting method to be one of: ['pearson', 'spearman', 'kendall', 'rf']'')"
    by blast
  from a b c v 1 2 show ?thesis
    by blast
qed

text \<open>
  C9. \<^verbatim>\<open>discover\<close> changes no frame that exists when it is called: after the call, with
  any method, overrides, seed and flag and whether it returns or raises, every such object,
  the caller's dataset among them, is the frame it was. The same holds for
  \<^verbatim>\<open>labelencode_if_object\<close>: the one assignment in the module, \<^verbatim>\<open>df_ml[col] = ...\<close>, goes to
  the object \<^verbatim>\<open>drop\<close> has just returned.
\<close>

theorem discover_changes_no_existing_frame:
  assumes "df < next_ref h" and "r < next_ref h"
  shows "frames (snd (discover L df co method rs flag h)) r = frames h r
    \<and> frames (snd (labelencode_if_object L df h)) r = frames h r"
proof
  have "extends h (snd (discover L df co method rs flag h))"
    using discover_sim [OF assms(1), of L co "method" rs flag] by (simp add: computes_def)
  with assms(2) show "frames (snd (discover L df co method rs flag h)) r = frames h r"
    by (simp add: extends_def)
  have "extends h (snd (labelencode_if_object L df h))"
    using labelencode_if_object_sim [OF assms(1)] by simp
  with assms(2) show "frames (snd (labelencode_if_object L df h)) r = frames h r"
    by (simp add: extends_def)
qed

theorem discover_changes_no_existing_frame_witness:
  "0 < next_ref example_store
   \<and> frames (snd (discover example_lib 0 None ''rf'' None True example_store)) 0 = example_frame
   \<and> frames (snd (labelencode_if_object example_lib 0 example_store)) 0 = example_frame
   \<and> next_ref (snd (discover example_lib 0 None ''rf'' None True example_store)) = 9
   \<and> columns (frames (snd (labelencode_if_object example_lib 0 example_store)) 1) = [''a'', ''b'']
   \<and> dtype (snd (data (frames (snd (labelencode_if_object example_lib 0 example_store)) 1) ! 1)) = Numeric"
proof -
  have c: "0 < next_ref example_store" and f: "frames example_store 0 = example_frame"
    by (simp_all add: example_store_def)
  have n: "next_ref (snd (discover example_lib 0 None ''rf'' None True example_store)) = 9"
    by code_simp
  have l: "columns (frames (snd (labelencode_if_object example_lib 0 example_store)) 1) = [''a'', ''b'']"
    "dtype (snd (data (frames (snd (labelencode_if_object example_lib 0 example_store)) 1) ! 1)) = Numeric"
    by code_simp+
  from discover_changes_no_existing_frame [OF c c, of example_lib None "''rf''" None True] f n l c
  show ?thesis
    by simp
qed

text \<open>
  C8. For a dataset with no rows and at least two columns (and a supported method), the call
  reaches the division of line 54 with a row count of zero for the first pair it visits: the
  division is not guarded, and the outcome of \<^verbatim>\<open>discover\<close> is \<^verbatim>\<open>ZeroDivisionError\<close>,
  not a fraction.
\<close>

theorem zero_rows_divide_by_zero:
  assumes "df < next_ref h"
    and "n_rows (frames h df) = 0"
    and "2 \<le> length (columns (frames h df))"
    and "method \<in> set known_methods"
  shows "fst (discover L df co method rs flag h) = Inl ZeroDivisionError"
proof -
  obtain c0 c1 cs where cols: "columns (frames h df) = c0 # c1 # cs"
    using assms(3) by (cases "columns (frames h df)"; cases "tl (columns (frames h df))") auto
  have "pair_value L (frames h df) method est c1 c0 = raise ZeroDivisionError" for est
    by (rule pair_value_no_rows [OF assms(2)]) (simp_all add: cols)
  then have "fst (discover_value L (frames h df) co method rs flag (generator h)) = Inl ZeroDivisionError"
    using assms(4)
    by (simp add: discover_value_def assert_def Let_def cols visited_pairs_first raise_apply)
  with discover_sim [OF assms(1), of L co "method" rs flag] show ?thesis
    by (simp add: computes_def)
qed

theorem zero_rows_divide_by_zero_witness:
  "0 < next_ref example_empty_store
   \<and> n_rows (frames example_empty_store 0) = 0
   \<and> 2 \<le> length (columns (frames example_empty_store 0))
   \<and> ''rf'' \<in> set known_methods
   \<and> fst (discover example_lib 0 None ''rf'' None False example_empty_store) = Inl ZeroDivisionError"
proof -
  have a: "0 < next_ref example_empty_store" "n_rows (frames example_empty_store 0) = 0"
    "2 \<le> length (columns (frames example_empty_store 0))"
    by (simp_all add: example_empty_store_def example_empty_frame_def columns_def)
  have b: "''rf'' \<in> set known_methods"
    by (simp add: known_methods_def)
  from a b zero_rows_divide_by_zero [OF a b, of example_lib None None False]
  show ?thesis by simp
qed

text \<open>
  C4. \<^verbatim>\<open>discover\<close> builds one dictionary of estimators per call, from the column labels, the
  overrides and the seed alone: its keys are exactly the column labels, a label in
  \<^verbatim>\<open>classifier_overrides\<close> is bound to a classifier and every other label to a regressor
  (50 trees, the seed passed through), and the data of the columns plays no part. Every pair
  is scored with the estimator bound to its target, whatever the feature: the outcome of the
  call is that of scoring the pairs so, one after the other in the order visited, each from
  the generator as the pair before left it.
\<close>

theorem one_estimator_per_column:
  "dom (estimator_loop cols overrides rs Map.empty) = set cols
   \<and> (\<forall>c \<in> set cols. estimator_loop cols overrides rs Map.empty c =
        Some (if c \<in> set overrides then RandomForestClassifier 50 rs else RandomForestRegressor 50 rs))
   \<and> (df < next_ref h \<and> method \<in> set known_methods \<longrightarrow>
        fst (discover L df co method rs flag h) =
          fst (bind (collect (\<lambda>p. pair_value L (frames h df) method
                       (the (estimator_loop (columns (frames h df))
                              (case co of None \<Rightarrow> [] | Some names \<Rightarrow> names) rs Map.empty (snd p)))
                       (fst p) (snd p))
                     (visited_pairs (columns (frames h df))))
            (\<lambda>rs. return (if flag then ResultsAndNaNInfo (map snd rs) (map fst rs)
                           else Results (map snd rs)))
            (generator h)))"
proof (intro conjI impI)
  show "dom (estimator_loop cols overrides rs Map.empty) = set cols"
    by (auto simp: dom_def estimator_loop_lookup)
  show "\<forall>c \<in> set cols. estimator_loop cols overrides rs Map.empty c =
        Some (if c \<in> set overrides then RandomForestClassifier 50 rs else RandomForestRegressor 50 rs)"
    by (simp add: estimator_loop_lookup estimator_for_def)
next
  assume a: "df < next_ref h \<and> method \<in> set known_methods"
  let ?cols = "columns (frames h df)"
  let ?o = "case co of None \<Rightarrow> [] | Some names \<Rightarrow> names"
  have "collect (\<lambda>p. pair_value L (frames h df) method (the (estimator_loop ?cols ?o rs Map.empty (snd p)))
                       (fst p) (snd p)) (visited_pairs ?cols) =
        collect (\<lambda>p. pair_value L (frames h df) method (estimator_for ?o rs (snd p)) (fst p) (snd p))
          (visited_pairs ?cols)"
    by (rule collect_cong) (simp add: estimator_loop_lookup visited_pairs_members)
  with a discover_sim [of df h L co "method" rs flag]
  show "fst (discover L df co method rs flag h) =
          fst (bind (collect (\<lambda>p. pair_value L (frames h df) method
                       (the (estimator_loop ?cols ?o rs Map.empty (snd p))) (fst p) (snd p))
                     (visited_pairs ?cols))
            (\<lambda>rs. return (if flag then ResultsAndNaNInfo (map snd rs) (map fst rs)
                           else Results (map snd rs)))
            (generator h))"
    by (simp add: computes_def discover_value_def assert_def Let_def)
qed

theorem one_estimator_per_column_witness:
  "dom (estimator_loop [''a'', ''b''] [''b'', ''zz''] (Some 7) Map.empty) = {''a'', ''b''}
   \<and> estimator_loop [''a'', ''b''] [''b'', ''zz''] (Some 7) Map.empty ''a'' =
        Some (RandomForestRegressor 50 (Some 7))
   \<and> estimator_loop [''a'', ''b''] [''b'', ''zz''] (Some 7) Map.empty ''b'' =
        Some (RandomForestClassifier 50 (Some 7))
   \<and> 0 < next_ref example_store \<and> ''rf'' \<in> set known_methods
   \<and> fst (discover example_lib 0 (Some [''b'', ''zz'']) ''rf'' (Some 7) False example_store) =
        fst (bind (collect (\<lambda>p. pair_value example_lib (frames example_store 0) ''rf''
                     (the (estimator_loop (columns (frames example_store 0)) [''b'', ''zz''] (Some 7)
                            Map.empty (snd p)))
                     (fst p) (snd p))
                   (visited_pairs (columns (frames example_store 0))))
          (\<lambda>rs. return (Results (map snd rs)))
          (generator example_store))
   \<and> fst (discover example_lib 0 (Some [''b'', ''zz'']) ''rf'' (Some 7) False example_store) =
        Inr (Results [\<lparr>feature = ''b'', target = ''a'', score = Float 9\<rparr>,
                      \<lparr>feature = ''a'', target = ''b'', score = Float (- 9)\<rparr>])"
proof -
  have a: "0 < next_ref example_store" and b: "''rf'' \<in> set known_methods"
    by (simp_all add: example_store_def known_methods_def)
  have v: "fst (discover example_lib 0 (Some [''b'', ''zz'']) ''rf'' (Some 7) False example_store) =
        Inr (Results [\<lparr>feature = ''b'', target = ''a'', score = Float 9\<rparr>,
                      \<lparr>feature = ''a'', target = ''b'', score = Float (- 9)\<rparr>])"
    by (rule discover_value_run [OF a, where fr = example_frame and g = "Generator 0"])
       (simp add: example_store_def, simp add: example_store_def, code_simp)
  from a b v
    one_estimator_per_column [of "[''a'', ''b'']" "[''b'', ''zz'']" "Some 7" 0 example_store "''rf''"
      example_lib "Some [''b'', ''zz'']" False]
  show ?thesis
    by (simp add: insert_commute)
qed

text \<open>
  C1. When \<^verbatim>\<open>discover\<close> returns, for any method, its score table has one row for each
  ordered pair (feature, target) of different columns and no other row: the rows come
  target by target in column order and, for each target, feature by feature in column order;
  there are N * (N - 1) of them for N columns, no two for the same pair, none with the feature
  equal to the target. (A dataset on which the call returns has no repeated column label:
  with a repeated label some pair selects a label twice and the call raises.)
\<close>

theorem one_row_per_ordered_pair:
  assumes "df < next_ref h"
    and "fst (discover L df co method rs flag h) = Inr res"
  shows "map (\<lambda>d. (feature d, target d)) (results_of res) =
           [(feat, targ). targ \<leftarrow> columns (frames h df), feat \<leftarrow> columns (frames h df), feat \<noteq> targ]
    \<and> length (results_of res) = length (columns (frames h df)) * (length (columns (frames h df)) - 1)
    \<and> distinct (map (\<lambda>d. (feature d, target d)) (results_of res))
    \<and> set (map (\<lambda>d. (feature d, target d)) (results_of res)) =
        {(feat, targ). feat \<in> set (columns (frames h df)) \<and> targ \<in> set (columns (frames h df)) \<and> feat \<noteq> targ}
    \<and> list_all (\<lambda>d. feature d \<noteq> target d) (results_of res)
    \<and> distinct (columns (frames h df))"
proof -
  let ?cols = "columns (frames h df)"
  let ?E = "\<lambda>p. estimator_for (case co of None \<Rightarrow> [] | Some names \<Rightarrow> names) rs (snd p)"
  from discover_success [OF assms] obtain prs
    where c: "fst (collect (\<lambda>p. pair_value L (frames h df) method (?E p) (fst p) (snd p))
                    (visited_pairs ?cols) (generator h)) = Inr prs"
      and r: "results_of res = map snd prs"
    by (auto split: if_splits)
  from collect_Inr [OF c]
  have all: "list_all2 (\<lambda>p r. \<exists>g. fst (pair_value L (frames h df) method (?E p) (fst p) (snd p) g) = Inr r)
      (visited_pairs ?cols) prs" .
  have d: "distinct ?cols"
  proof (rule ccontr)
    assume "\<not> distinct ?cols"
    then obtain k where "(k, k) \<in> set (visited_pairs ?cols)"
      by (blast dest: repeated_label_visited)
    from collect_Inr_member [OF c this] obtain r g
      where "fst (pair_value L (frames h df) method (?E (k, k)) k k g) = Inr r"
      by auto
    with pair_value_same_label [of L "frames h df" "method" "?E (k, k)" k g] show False
      by auto
  qed
  have keys: "map (\<lambda>d. (feature d, target d)) (results_of res) = visited_pairs ?cols"
    unfolding r by (rule collected_keys(1) [OF all])
  have len: "length (results_of res) = length (visited_pairs ?cols)"
    using arg_cong [OF keys, of length] by simp
  have ne: "list_all (\<lambda>d. feature d \<noteq> target d) (results_of res)"
  proof -
    have "\<forall>p \<in> set (map (\<lambda>d. (feature d, target d)) (results_of res)). fst p \<noteq> snd p"
      unfolding keys visited_pairs_product [OF d] by auto
    then show ?thesis
      by (auto simp: list_all_iff)
  qed
  have st: "set (visited_pairs ?cols) = {(feat, targ). feat \<in> set ?cols \<and> targ \<in> set ?cols \<and> feat \<noteq> targ}"
    unfolding visited_pairs_product [OF d] by auto
  show ?thesis
    using keys len ne d st
    by (simp add: visited_pairs_distinct [OF d, symmetric] length_visited_pairs distinct_visited_pairs)
qed

theorem one_row_per_ordered_pair_witness:
  "0 < next_ref example_wide_store
   \<and> fst (discover example_lib 0 None ''pearson'' None False example_wide_store) =
        Inr (Results [\<lparr>feature = ''y'', target = ''x'', score = Float 1\<rparr>,
                      \<lparr>feature = ''z'', target = ''x'', score = Float 2\<rparr>,
                      \<lparr>feature = ''x'', target = ''y'', score = Float 1\<rparr>,
                      \<lparr>feature = ''z'', target = ''y'', score = Float 1\<rparr>,
                      \<lparr>feature = ''x'', target = ''z'', score = Float 2\<rparr>,
                      \<lparr>feature = ''y'', target = ''z'', score = Float 1\<rparr>])
   \<and> [(feat, targ). targ \<leftarrow> columns (frames example_wide_store 0),
                      feat \<leftarrow> columns (frames example_wide_store 0), feat \<noteq> targ] =
        [(''y'', ''x''), (''z'', ''x''), (''x'', ''y''), (''z'', ''y''), (''x'', ''z''), (''y'', ''z'')]
   \<and> length (columns (frames example_wide_store 0)) * (length (columns (frames example_wide_store 0)) - 1) = 6
   \<and> distinct (columns (frames example_wide_store 0))"
proof -
  have c: "0 < next_ref example_wide_store"
    by (simp add: example_wide_store_def)
  have v: "fst (discover example_lib 0 None ''pearson'' None False example_wide_store) =
        Inr (Results [\<lparr>feature = ''y'', target = ''x'', score = Float 1\<rparr>,
                      \<lparr>feature = ''z'', target = ''x'', score = Float 2\<rparr>,
                      \<lparr>feature = ''x'', target = ''y'', score = Float 1\<rparr>,
                      \<lparr>feature = ''z'', target = ''y'', score = Float 1\<rparr>,
                      \<lparr>feature = ''x'', target = ''z'', score = Float 2\<rparr>,
                      \<lparr>feature = ''y'', target = ''z'', score = Float 1\<rparr>])"
    by (rule discover_value_run [OF c, where fr = example_wide_frame and g = "Generator 0"])
       (simp add: example_wide_store_def, simp add: example_wide_store_def, code_simp)
  have cols: "columns (frames example_wide_store 0) = [''x'', ''y'', ''z'']"
    by (simp add: example_wide_store_def example_wide_frame_def columns_def)
  from one_row_per_ordered_pair [OF c v] c v show ?thesis
    unfolding cols by simp
qed

text \<open>
  C3. For a dataset with at least one row on which \<^verbatim>\<open>discover\<close> returns with the table of
  dropped rows, and two different columns \<open>feat\<close> and \<open>targ\<close>: the table has exactly one record
  for the pair; its \<^verbatim>\<open>n_dropped_na\<close> is the number of rows with a missing cell in either column,
  an integer that is not negative, and its \<^verbatim>\<open>pct_dropped_na\<close> is that number divided by the
  number of rows of the dataset, between 0 and 1. In particular, when the feature column has
  exactly one missing cell and the target column none, the record says 1 and 1 / rows.
  (The quotient is the exact one; the float Python returns is its rounding.)
\<close>

theorem nan_info_counts_dropped_rows:
  assumes "df < next_ref h"
    and "wf_dataframe (frames h df)"
    and "0 < n_rows (frames h df)"
    and "fst (discover L df co method rs True h) = Inr (ResultsAndNaNInfo ds ns)"
    and "map_of (data (frames h df)) feat = Some a"
    and "map_of (data (frames h df)) targ = Some b"
    and "feat \<noteq> targ"
  shows "filter (\<lambda>n. feature n = feat \<and> target n = targ) ns =
      [\<lparr>feature = feat, target = targ,
        n_dropped_na = int (length (filter (\<lambda>(x, y). isnull x \<or> isnull y) (zip (cells a) (cells b)))),
        pct_dropped_na = Float (real (length (filter (\<lambda>(x, y). isnull x \<or> isnull y) (zip (cells a) (cells b))))
                                / real (n_rows (frames h df)))\<rparr>]
    \<and> 0 \<le> real (length (filter (\<lambda>(x, y). isnull x \<or> isnull y) (zip (cells a) (cells b))))
            / real (n_rows (frames h df))
    \<and> real (length (filter (\<lambda>(x, y). isnull x \<or> isnull y) (zip (cells a) (cells b))))
            / real (n_rows (frames h df)) \<le> 1
    \<and> (isnull_sum a = 1 \<and> isnull_sum b = 0 \<longrightarrow>
        filter (\<lambda>n. feature n = feat \<and> target n = targ) ns =
          [\<lparr>feature = feat, target = targ, n_dropped_na = 1,
            pct_dropped_na = Float (1 / real (n_rows (frames h df)))\<rparr>])"
proof -
  let ?fr = "frames h df"
  let ?k = "length (filter (\<lambda>(x, y). isnull x \<or> isnull y) (zip (cells a) (cells b)))"
  have la: "length (cells a) = n_rows ?fr" and lb: "length (cells b) = n_rows ?fr"
    using assms(2,5,6) by (simp_all add: wf_dataframe_length)
  from discover_pair_record [OF assms(1,4) map_of_in_columns [OF assms(5)] map_of_in_columns [OF assms(6)] assms(7)]
  obtain r g where r: "fst (pair_value L ?fr method
        (estimator_for (case co of None \<Rightarrow> [] | Some names \<Rightarrow> names) rs targ) feat targ g) = Inr r"
    and f: "filter (\<lambda>n. feature n = feat \<and> target n = targ) ns = [fst r]"
    and d: "distinct (columns ?fr)"
    by auto
  from pair_value_prepared [OF r] obtain p where p: "prepare_value ?fr feat targ = Inr p" "fst r = snd p"
    by auto
  have rec: "filter (\<lambda>n. feature n = feat \<and> target n = targ) ns =
      [\<lparr>feature = feat, target = targ, n_dropped_na = int ?k,
        pct_dropped_na = Float (real ?k / real (n_rows ?fr))\<rparr>]"
    unfolding f p(2) prepare_value_nan_info [OF d assms(2,5,6) p(1)] ..
  have "?k \<le> length (zip (cells a) (cells b))"
    by (rule length_filter_le)
  then have le: "?k \<le> n_rows ?fr"
    by (simp add: la lb)
  have one: "?k = 1" if "isnull_sum a = 1 \<and> isnull_sum b = 0"
    using that count_null_rows_one_sided [of "cells a" "cells b"]
    by (simp add: isnull_sum_def la lb)
  show ?thesis
    using rec le assms(3) one by (auto simp: divide_le_eq)
qed

theorem nan_info_counts_dropped_rows_witness:
  "0 < next_ref example_store \<and> wf_dataframe (frames example_store 0)
   \<and> 0 < n_rows (frames example_store 0)
   \<and> fst (discover example_lib 0 None ''rf'' None True example_store) =
        Inr (ResultsAndNaNInfo
         [\<lparr>feature = ''b'', target = ''a'', score = Float 2\<rparr>,
          \<lparr>feature = ''a'', target = ''b'', score = Float 5\<rparr>]
         [\<lparr>feature = ''b'', target = ''a'', n_dropped_na = 1, pct_dropped_na = Float (1 / 3)\<rparr>,
          \<lparr>feature = ''a'', target = ''b'', n_dropped_na = 1, pct_dropped_na = Float (1 / 3)\<rparr>])
   \<and> map_of (data (frames example_store 0)) ''a'' = Some \<lparr>dtype = Numeric, cells = [NA, Val 1, Val 1]\<rparr>
   \<and> map_of (data (frames example_store 0)) ''b'' = Some \<lparr>dtype = Object, cells = [Val 0, Val 1, Val 2]\<rparr>
   \<and> isnull_sum \<lparr>dtype = Numeric, cells = [NA, Val 1, Val 1]\<rparr> = 1
   \<and> isnull_sum \<lparr>dtype = Object, cells = [Val 0, Val 1, Val 2]\<rparr> = 0
   \<and> filter (\<lambda>n. feature n = ''a'' \<and> target n = ''b'')
         [\<lparr>feature = ''b'', target = ''a'', n_dropped_na = 1, pct_dropped_na = Float (1 / 3)\<rparr>,
          \<lparr>feature = ''a'', target = ''b'', n_dropped_na = 1, pct_dropped_na = Float (1 / 3)\<rparr>] =
       [\<lparr>feature = ''a'', target = ''b'', n_dropped_na = 1, pct_dropped_na = Float (1 / 3)\<rparr>]"
proof -
  have c: "0 < next_ref example_store" and w: "wf_dataframe (frames example_store 0)"
    and n: "0 < n_rows (frames example_store 0)"
    and a: "map_of (data (frames example_store 0)) ''a'' = Some \<lparr>dtype = Numeric, cells = [NA, Val 1, Val 1]\<rparr>"
    and b: "map_of (data (frames example_store 0)) ''b'' = Some \<lparr>dtype = Object, cells = [Val 0, Val 1, Val 2]\<rparr>"
    by (simp_all add: example_store_def example_frame_def wf_dataframe_def)
  have i: "isnull_sum \<lparr>dtype = Numeric, cells = [NA, Val 1, Val 1]\<rparr> = 1"
    "isnull_sum \<lparr>dtype = Object, cells = [Val 0, Val 1, Val 2]\<rparr> = 0"
    by (simp_all add: isnull_sum_def)
  have v: "fst (discover example_lib 0 None ''rf'' None True example_store) =
        Inr (ResultsAndNaNInfo
         [\<lparr>feature = ''b'', target = ''a'', score = Float 2\<rparr>,
          \<lparr>feature = ''a'', target = ''b'', score = Float 5\<rparr>]
         [\<lparr>feature = ''b'', target = ''a'', n_dropped_na = 1, pct_dropped_na = Float (1 / 3)\<rparr>,
          \<lparr>feature = ''a'', target = ''b'', n_dropped_na = 1, pct_dropped_na = Float (1 / 3)\<rparr>])"
    by (rule discover_value_run [OF c, where fr = example_frame and g = "Generator 0"])
       (simp add: example_store_def, simp add: example_store_def, code_simp)
  have ne: "''a'' \<noteq> ''b''"
    by simp
  have rows: "real (n_rows (frames example_store 0)) = 3"
    by (simp add: example_store_def example_frame_def)
  from nan_info_counts_dropped_rows [OF c w n v a b ne] i
  have "filter (\<lambda>n. feature n = ''a'' \<and> target n = ''b'')
         [\<lparr>feature = ''b'', target = ''a'', n_dropped_na = 1, pct_dropped_na = Float (1 / 3)\<rparr>,
          \<lparr>feature = ''a'', target = ''b'', n_dropped_na = 1, pct_dropped_na = Float (1 / 3)\<rparr>] =
       [\<lparr>feature = ''a'', target = ''b'', n_dropped_na = 1, pct_dropped_na = Float (1 / 3)\<rparr>]"
    unfolding rows by simp
  with c w n v a b i show ?thesis
    by simp
qed





end
